theory Spec2Isabelle
  imports Complex_Main
begin

section \<open>Data model of \<open>conversation_utils.py\<close>\<close>

text \<open>
  A chat message is a Python dict with the two keys \<open>"role"\<close> and \<open>"content"\<close>, both
  strings. The role stays a string, as in the source: the renderer compares it with three
  literals and has no \<open>else\<close> branch.
\<close>

record ChatMessage =
  role :: string
  content :: string

text \<open>
  The fields of \<open>BotConfig\<close> that \<open>ConversationManager\<close> reads. Python's \<open>int\<close> is
  unbounded, hence \<open>int\<close>.
\<close>

record BotConfig =
  system_prompt :: string
  history_max_pairs :: int
  history_max_tokens :: int
  history_ttl_seconds :: int

text \<open>
  Timestamps are the values of \<open>time.time()\<close>. They are modelled as real numbers: the
  rounding of floating-point subtraction is not modelled.
\<close>

type_synonym timestamp = real

record ConversationEntry =
  history :: "ChatMessage list"
  updated_at :: timestamp

text \<open>
  The tokenizer is an optional, duck-typed capability; a tokenizer that is present counts as
  true in \<open>if self._tokenizer\<close>. An exception raised by it is the
  value \<open>Raised msg\<close>. Calling the tokenizer returns a mapping whose \<open>"input_ids"\<close> may be
  missing (\<open>None\<close>), a flat list of ids, or a batch (a list of lists).
  \<open>apply_chat_template\<close> is \<open>None\<close> when the object has no such attribute.
\<close>

datatype error = Raised string

datatype input_ids = Flat "int list" | Nested "int list list"

record Tokenizer =
  apply_chat_template :: "(ChatMessage list \<Rightarrow> bool \<Rightarrow> error + string) option"
  encode :: "string \<Rightarrow> error + input_ids option"

record ConversationManager =
  tokenizer :: "Tokenizer option"
  config :: BotConfig
  store :: "int \<rightharpoonup> ConversationEntry"

definition init :: "Tokenizer option \<Rightarrow> BotConfig \<Rightarrow> ConversationManager" where
  "init tok cfg = \<lparr>tokenizer = tok, config = cfg, store = Map.empty\<rparr>"

section \<open>Store operations\<close>

text \<open>
  Every call of \<open>self._now()\<close> is an argument of the operation that makes it, so the
  readings of one operation may differ.
\<close>

definition purge_inactive :: "timestamp \<Rightarrow> ConversationManager \<Rightarrow> ConversationManager" where
  "purge_inactive current m =
     (let ttl = history_ttl_seconds (config m) in
      if ttl \<le> 0 then m
      else m\<lparr>store := (\<lambda>user_id.
             case store m user_id of
               None \<Rightarrow> None
             | Some entry \<Rightarrow>
                 if current - updated_at entry > real_of_int ttl then None else Some entry)\<rparr>)"

definition system_message :: "BotConfig \<Rightarrow> ChatMessage" where
  "system_message cfg = \<lparr>role = ''system'', content = system_prompt cfg\<rparr>"

definition ensure_entry ::
  "timestamp \<Rightarrow> int \<Rightarrow> ConversationManager \<Rightarrow> ConversationEntry \<times> ConversationManager" where
  "ensure_entry now user_id m =
     (case store m user_id of
        None \<Rightarrow>
          (let entry = \<lparr>history = [system_message (config m)], updated_at = now\<rparr>
           in (entry, m\<lparr>store := (store m)(user_id \<mapsto> entry)\<rparr>))
      | Some entry \<Rightarrow> (entry, m))"

definition clear_history :: "int \<Rightarrow> ConversationManager \<Rightarrow> ConversationManager" where
  "clear_history user_id m =
     (if user_id \<in> dom (store m) then m\<lparr>store := (store m)(user_id := None)\<rparr> else m)"

section \<open>Rendering and token counting\<close>

definition tag_line :: "string \<Rightarrow> string \<Rightarrow> string" where
  "tag_line tag body = ''<|'' @ tag @ ''|>'' @ [CHR 0x0A] @ body @ [CHR 0x0A]"

fun prompt_parts :: "ChatMessage list \<Rightarrow> string list" where
  "prompt_parts [] = []"
| "prompt_parts (msg # rest) =
     (if role msg = ''system'' then [tag_line ''system'' (content msg)]
      else if role msg = ''user'' then [tag_line ''user'' (content msg)]
      else if role msg = ''assistant'' then [tag_line ''assistant'' (content msg)]
      else []) @ prompt_parts rest"

definition fallback_prompt :: "ChatMessage list \<Rightarrow> bool \<Rightarrow> string" where
  "fallback_prompt h add_generation_prompt =
     concat (prompt_parts h @
       (if add_generation_prompt then [''<|assistant|>'' @ [CHR 0x0A]] else []))"

definition build_prompt_from_history ::
  "ConversationManager \<Rightarrow> ChatMessage list \<Rightarrow> bool \<Rightarrow> error + string" where
  "build_prompt_from_history m h add_generation_prompt =
     (case tokenizer m of
        None \<Rightarrow> Inr (fallback_prompt h add_generation_prompt)
      | Some tk \<Rightarrow>
          (case apply_chat_template tk of
             None \<Rightarrow> Inr (fallback_prompt h add_generation_prompt)
           | Some template \<Rightarrow> template h add_generation_prompt))"

text \<open>
  \<open>str.split()\<close> without arguments: the maximal runs of non-whitespace characters.
  Characters are the code points below 256; the whitespace ones among them are listed.
\<close>

definition isspace :: "char \<Rightarrow> bool" where
  "isspace c = ((of_char c :: nat) \<in> {9, 10, 11, 12, 13, 28, 29, 30, 31, 32, 133, 160})"

fun split_from :: "string \<Rightarrow> string \<Rightarrow> string list" where
  "split_from cur [] = (if cur = [] then [] else [cur])"
| "split_from cur (c # cs) =
     (if isspace c then (if cur = [] then split_from [] cs else cur # split_from [] cs)
      else split_from (cur @ [c]) cs)"

definition py_split :: "string \<Rightarrow> string list" where
  "py_split s = split_from [] s"

definition ids_length :: "input_ids option \<Rightarrow> nat" where
  "ids_length encoded =
     (case encoded of
        None \<Rightarrow> 0
      | Some (Flat ids) \<Rightarrow> length ids
      | Some (Nested []) \<Rightarrow> 0
      | Some (Nested (first # _)) \<Rightarrow> length first)"

definition count_tokens :: "ConversationManager \<Rightarrow> string \<Rightarrow> error + nat" where
  "count_tokens m prompt =
     (if prompt = [] then Inr 0
      else case tokenizer m of
        Some tk \<Rightarrow>
          (case encode tk prompt of
             Inl e \<Rightarrow> Inl e
           | Inr encoded \<Rightarrow> Inr (ids_length encoded))
      | None \<Rightarrow> Inr (length (py_split prompt)))"

section \<open>Truncation\<close>

text \<open>
  \<open>_truncate_history\<close> mutates the list in place, so a failure leaves the list as it was
  when the exception was raised. The model returns that list together with the outcome.
  The first half of the function is \<open>pair_count_pass\<close>, its \<open>while\<close> loop is
  \<open>token_budget_loop\<close>.
\<close>

definition pair_count_pass :: "BotConfig \<Rightarrow> ChatMessage list \<Rightarrow> ChatMessage list" where
  "pair_count_pass cfg h =
     (let max_pairs = history_max_pairs cfg in
      if max_pairs > 0 then
        (let max_messages = 1 + max_pairs * 2 in
         if int (length h) > max_messages
         then hd h # drop (length h - nat (max_messages - 1)) h
         else h)
      else h)"

function token_budget_loop ::
  "ConversationManager \<Rightarrow> ChatMessage list \<Rightarrow> (error + unit) \<times> ChatMessage list" where
  "token_budget_loop m h =
     (if length h > 1 then
        (case build_prompt_from_history m h True of
           Inl e \<Rightarrow> (Inl e, h)
         | Inr prompt \<Rightarrow>
             (case count_tokens m prompt of
                Inl e \<Rightarrow> (Inl e, h)
              | Inr token_count \<Rightarrow>
                  if int token_count \<le> history_max_tokens (config m) then (Inr (), h)
                  else if length h > 2 then token_budget_loop m (take 1 h @ drop 3 h)
                  else (Inr (), h)))
      else (Inr (), h))"
  by pat_completeness auto
termination
  by (relation "measure (\<lambda>(m, h). length h)") auto

declare token_budget_loop.simps [simp del]

definition truncate_history ::
  "ConversationManager \<Rightarrow> ChatMessage list \<Rightarrow> (error + unit) \<times> ChatMessage list" where
  "truncate_history m h =
     (let h1 = pair_count_pass (config m) h in
      if history_max_tokens (config m) \<le> 0 then (Inr (), h1)
      else token_budget_loop m h1)"

section \<open>The public operations\<close>

text \<open>
  An operation returns its outcome and the manager as the call leaves it. The entry object
  is shared with the store, so the appended turn, the new \<open>updated_at\<close> and every
  deletion made by the truncation are in the store also when the call raises. The body of
  \<open>build_prompt\<close> after \<open>_ensure_entry\<close> is the body of \<open>build_prompt_from_history\<close> in the
  source, line for line, so the model calls the latter.
\<close>

definition add_user_message ::
  "timestamp \<Rightarrow> timestamp \<Rightarrow> timestamp \<Rightarrow> int \<Rightarrow> string \<Rightarrow> ConversationManager
     \<Rightarrow> (error + unit) \<times> ConversationManager" where
  "add_user_message t_purge t_new t_upd user_id text m =
     (let m0 = purge_inactive t_purge m;
          (entry, m1) = ensure_entry t_new user_id m0;
          (r, h) = truncate_history m1 (history entry @ [\<lparr>role = ''user'', content = text\<rparr>])
      in (r, m1\<lparr>store := (store m1)(user_id \<mapsto> \<lparr>history = h, updated_at = t_upd\<rparr>)\<rparr>))"

definition add_assistant_message ::
  "timestamp \<Rightarrow> timestamp \<Rightarrow> int \<Rightarrow> string \<Rightarrow> ConversationManager
     \<Rightarrow> (error + unit) \<times> ConversationManager" where
  "add_assistant_message t_new t_upd user_id text m =
     (let (entry, m1) = ensure_entry t_new user_id m;
          (r, h) = truncate_history m1 (history entry @ [\<lparr>role = ''assistant'', content = text\<rparr>])
      in (r, m1\<lparr>store := (store m1)(user_id \<mapsto> \<lparr>history = h, updated_at = t_upd\<rparr>)\<rparr>))"

definition build_prompt ::
  "timestamp \<Rightarrow> int \<Rightarrow> bool \<Rightarrow> ConversationManager \<Rightarrow> (error + string) \<times> ConversationManager" where
  "build_prompt t_new user_id add_generation_prompt m =
     (let (entry, m1) = ensure_entry t_new user_id m
      in (build_prompt_from_history m1 (history entry) add_generation_prompt, m1))"

definition get_history ::
  "timestamp \<Rightarrow> int \<Rightarrow> ConversationManager \<Rightarrow> ChatMessage list \<times> ConversationManager" where
  "get_history t_new user_id m =
     (let (entry, m1) = ensure_entry t_new user_id m in (history entry, m1))"

section \<open>The objects behind \<open>get_history\<close>\<close>

text \<open>
  In the sections above a history is a value. In Python the history is a list object whose
  items are references to dict objects, and \<open>list(entry.history)\<close> makes a new list object
  holding the same references. This section models \<open>_ensure_entry\<close> and \<open>get_history\<close> on an
  explicit store of objects: an entry holds the reference of its list, a list object holds
  the references of its turns. \<open>dict_set_content\<close>, \<open>list_append\<close> and \<open>list_clear\<close> are what
  a caller can do with the value it was given (\<open>h[i]["content"] = x\<close>, \<open>h.append(d)\<close>,
  \<open>h.clear()\<close>). \<open>read_list\<close> is the sequence of turns seen through a list reference, and
  \<open>stored_history\<close> the one seen through the entry of a user.
\<close>

datatype pyobj = ListObj "nat list" | DictObj ChatMessage

record ObjectStore =
  objects :: "nat \<rightharpoonup> pyobj"
  next_ref :: nat
  entries :: "int \<rightharpoonup> nat \<times> timestamp"
  settings :: BotConfig

definition new_objects :: "BotConfig \<Rightarrow> ObjectStore" where
  "new_objects cfg = \<lparr>objects = Map.empty, next_ref = 0, entries = Map.empty, settings = cfg\<rparr>"

definition alloc :: "pyobj \<Rightarrow> ObjectStore \<Rightarrow> nat \<times> ObjectStore" where
  "alloc obj s =
     (next_ref s, s\<lparr>objects := (objects s)(next_ref s \<mapsto> obj), next_ref := Suc (next_ref s)\<rparr>)"

definition ensure_entry_ref :: "timestamp \<Rightarrow> int \<Rightarrow> ObjectStore \<Rightarrow> nat \<times> ObjectStore" where
  "ensure_entry_ref now user_id s =
     (case entries s user_id of
        Some (l, t) \<Rightarrow> (l, s)
      | None \<Rightarrow>
          (let (d, s1) = alloc (DictObj (system_message (settings s))) s;
               (l, s2) = alloc (ListObj [d]) s1
           in (l, s2\<lparr>entries := (entries s2)(user_id \<mapsto> (l, now))\<rparr>)))"

definition list_items :: "ObjectStore \<Rightarrow> nat \<Rightarrow> nat list" where
  "list_items s l = (case objects s l of Some (ListObj refs) \<Rightarrow> refs | _ \<Rightarrow> [])"

definition get_history_ref :: "timestamp \<Rightarrow> int \<Rightarrow> ObjectStore \<Rightarrow> nat \<times> ObjectStore" where
  "get_history_ref now user_id s =
     (let (l, s1) = ensure_entry_ref now user_id s
      in alloc (ListObj (list_items s1 l)) s1)"

definition dict_set_content :: "nat \<Rightarrow> string \<Rightarrow> ObjectStore \<Rightarrow> ObjectStore" where
  "dict_set_content d x s =
     (case objects s d of
        Some (DictObj msg) \<Rightarrow> s\<lparr>objects := (objects s)(d \<mapsto> DictObj (msg\<lparr>content := x\<rparr>))\<rparr>
      | _ \<Rightarrow> s)"

definition list_append :: "nat \<Rightarrow> nat \<Rightarrow> ObjectStore \<Rightarrow> ObjectStore" where
  "list_append l d s =
     (case objects s l of
        Some (ListObj refs) \<Rightarrow> s\<lparr>objects := (objects s)(l \<mapsto> ListObj (refs @ [d]))\<rparr>
      | _ \<Rightarrow> s)"

definition list_clear :: "nat \<Rightarrow> ObjectStore \<Rightarrow> ObjectStore" where
  "list_clear l s =
     (case objects s l of
        Some (ListObj refs) \<Rightarrow> s\<lparr>objects := (objects s)(l \<mapsto> ListObj [])\<rparr>
      | _ \<Rightarrow> s)"

definition read_dict :: "ObjectStore \<Rightarrow> nat \<Rightarrow> ChatMessage list" where
  "read_dict s d = (case objects s d of Some (DictObj msg) \<Rightarrow> [msg] | _ \<Rightarrow> [])"

definition read_list :: "ObjectStore \<Rightarrow> nat \<Rightarrow> ChatMessage list" where
  "read_list s l = concat (map (read_dict s) (list_items s l))"

definition stored_history :: "ObjectStore \<Rightarrow> int \<Rightarrow> ChatMessage list" where
  "stored_history s user_id =
     (case entries s user_id of Some (l, t) \<Rightarrow> read_list s l | None \<Rightarrow> [])"

text \<open>
  The store of objects seen as the manager of the sections above, and the states in which
  every reference in use is below the next one to be allocated.
\<close>

definition well_formed :: "ObjectStore \<Rightarrow> bool" where
  "well_formed s =
     ((\<forall>a. next_ref s \<le> a \<longrightarrow> objects s a = None)
      \<and> (\<forall>u l t. entries s u = Some (l, t) \<longrightarrow> l < next_ref s)
      \<and> (\<forall>l refs. objects s l = Some (ListObj refs) \<longrightarrow> (\<forall>d \<in> set refs. d < next_ref s)))"

definition abstract :: "Tokenizer option \<Rightarrow> ObjectStore \<Rightarrow> ConversationManager" where
  "abstract tok s =
     \<lparr>tokenizer = tok, config = settings s,
      store = (\<lambda>u. case entries s u of
                      None \<Rightarrow> None
                    | Some (l, t) \<Rightarrow> Some \<lparr>history = read_list s l, updated_at = t\<rparr>)\<rparr>"

section \<open>Notions used in the properties\<close>

subsection \<open>The token-budget loop\<close>

text \<open>
  \<open>drop_pairs k h\<close> is the list after \<open>k\<close> executions of \<open>del history[1:3]\<close>.
  \<open>token_count\<close> is what one iteration of the loop measures: the rendering of the
  history with the generation cue, counted by \<open>_count_tokens\<close>.
\<close>

definition drop_pairs :: "nat \<Rightarrow> ChatMessage list \<Rightarrow> ChatMessage list" where
  "drop_pairs k h = take 1 h @ drop (Suc (2 * k)) h"

definition token_count :: "ConversationManager \<Rightarrow> ChatMessage list \<Rightarrow> error + nat" where
  "token_count m h =
     (case build_prompt_from_history m h True of
        Inl e \<Rightarrow> Inl e
      | Inr prompt \<Rightarrow> count_tokens m prompt)"

definition over_budget :: "ConversationManager \<Rightarrow> ChatMessage list \<Rightarrow> bool" where
  "over_budget m h =
     (case token_count m h of
        Inl e \<Rightarrow> False
      | Inr n \<Rightarrow> int n > history_max_tokens (config m))"

definition within_budget :: "ConversationManager \<Rightarrow> ChatMessage list \<Rightarrow> bool" where
  "within_budget m h =
     (case token_count m h of
        Inl e \<Rightarrow> False
      | Inr n \<Rightarrow> int n \<le> history_max_tokens (config m))"

text \<open>How the loop can end on the list \<open>h\<close> with the outcome \<open>r\<close>.\<close>

definition loop_stops :: "ConversationManager \<Rightarrow> ChatMessage list \<Rightarrow> (error + unit) \<Rightarrow> bool" where
  "loop_stops m h r =
     (case r of
        Inl e \<Rightarrow> 1 < length h \<and> token_count m h = Inl e
      | Inr u \<Rightarrow> length h \<le> 1 \<or> within_budget m h \<or> (over_budget m h \<and> length h = 2))"

subsection \<open>The turns of the specification\<close>

text \<open>
  The specification's \<open>ChatTurn\<close> has an enumerated role. \<open>message_of\<close> is the dict the
  code stores for it. \<open>spec_fallback_render\<close> follows the specification's description of
  the fallback mode, to be compared with \<open>build_prompt_from_history\<close>.
\<close>

datatype Role = System | User | Assistant

datatype ChatTurn = Turn Role string

fun role_name :: "Role \<Rightarrow> string" where
  "role_name System = ''system''"
| "role_name User = ''user''"
| "role_name Assistant = ''assistant''"

fun message_of :: "ChatTurn \<Rightarrow> ChatMessage" where
  "message_of (Turn r c) = \<lparr>role = role_name r, content = c\<rparr>"

fun spec_tag_line :: "Role \<Rightarrow> string" where
  "spec_tag_line System = ''<|system|>'' @ [CHR 0x0A]"
| "spec_tag_line User = ''<|user|>'' @ [CHR 0x0A]"
| "spec_tag_line Assistant = ''<|assistant|>'' @ [CHR 0x0A]"

fun spec_render_turn :: "ChatTurn \<Rightarrow> string" where
  "spec_render_turn (Turn r c) = spec_tag_line r @ c @ [CHR 0x0A]"

definition spec_fallback_render :: "ChatTurn list \<Rightarrow> bool \<Rightarrow> string" where
  "spec_fallback_render turns cue =
     concat (map spec_render_turn turns) @ (if cue then spec_tag_line Assistant else [])"

subsection \<open>Call sequences\<close>

text \<open>
  A call of the public interface, with the clock readings it consumes. \<open>perform\<close> is the
  manager after the call, whether it returned or raised; \<open>run\<close> performs a sequence of
  calls from left to right. \<open>pinned\<close> is the invariant of a stored history.
\<close>

datatype op =
    AddUserMessage timestamp timestamp timestamp int string
  | AddAssistantMessage timestamp timestamp int string
  | GetHistory timestamp int
  | BuildPrompt timestamp int bool
  | ClearHistory int
  | PurgeInactive timestamp

fun perform :: "op \<Rightarrow> ConversationManager \<Rightarrow> ConversationManager" where
  "perform (AddUserMessage t_purge t_new t_upd user_id text) m =
     snd (add_user_message t_purge t_new t_upd user_id text m)"
| "perform (AddAssistantMessage t_new t_upd user_id text) m =
     snd (add_assistant_message t_new t_upd user_id text m)"
| "perform (GetHistory t_new user_id) m = snd (get_history t_new user_id m)"
| "perform (BuildPrompt t_new user_id cue) m = snd (build_prompt t_new user_id cue m)"
| "perform (ClearHistory user_id) m = clear_history user_id m"
| "perform (PurgeInactive current) m = purge_inactive current m"

definition run :: "op list \<Rightarrow> ConversationManager \<Rightarrow> ConversationManager" where
  "run ops m = fold perform ops m"

definition pinned :: "BotConfig \<Rightarrow> ChatMessage list \<Rightarrow> bool" where
  "pinned cfg h = (h \<noteq> [] \<and> hd h = system_message cfg \<and> (\<forall>msg \<in> set (tl h). role msg \<noteq> ''system''))"

text \<open>
  An entry is live at a sweep when the sweep keeps it: expiry is disabled or the age does not
  exceed the time to live.
\<close>

definition live :: "ConversationManager \<Rightarrow> timestamp \<Rightarrow> ConversationEntry \<Rightarrow> bool" where
  "live m current e =
     (history_ttl_seconds (config m) \<le> 0
      \<or> current - updated_at e \<le> real_of_int (history_ttl_seconds (config m)))"

text \<open>
  The token-budget pass deletes nothing from a history when the budget is disabled or the
  history is not measured as over budget.
\<close>

definition budget_allows :: "ConversationManager \<Rightarrow> ChatMessage list \<Rightarrow> bool" where
  "budget_allows m h = (history_max_tokens (config m) \<le> 0 \<or> \<not> over_budget m h)"

subsection \<open>Concrete inputs\<close>

definition demo_config :: BotConfig where
  "demo_config = \<lparr>system_prompt = ''sys'', history_max_pairs = 0, history_max_tokens = 8,
     history_ttl_seconds = 0\<rparr>"

definition demo_history :: "ChatMessage list" where
  "demo_history = map message_of
     [Turn System ''sys'', Turn User ''one two'', Turn Assistant ''three'', Turn User ''four'',
      Turn Assistant ''five'']"

definition one_pair_config :: BotConfig where
  "one_pair_config = \<lparr>system_prompt = ''sys'', history_max_pairs = 1, history_max_tokens = 0,
     history_ttl_seconds = 60\<rparr>"

definition demo_ops :: "op list" where
  "demo_ops = [AddUserMessage 10 10 10 7 ''m1'', AddAssistantMessage 11 11 7 ''r1'',
     GetHistory 12 7, AddUserMessage 20 20 20 7 ''m2'']"


definition demo_entry :: ConversationEntry where
  "demo_entry = \<lparr>history = map message_of [Turn System ''sys'', Turn Assistant ''r1'', Turn User ''m2''],
     updated_at = 20\<rparr>"

text \<open>
  Configurations with the default token budget (2048) and time to live (3600 seconds) of
  \<open>BotConfig\<close>.
\<close>

definition default_two_pair_config :: BotConfig where
  "default_two_pair_config = \<lparr>system_prompt = ''sys'', history_max_pairs = 2,
     history_max_tokens = 2048, history_ttl_seconds = 3600\<rparr>"

definition default_one_pair_config :: BotConfig where
  "default_one_pair_config = \<lparr>system_prompt = ''sys'', history_max_pairs = 1,
     history_max_tokens = 2048, history_ttl_seconds = 3600\<rparr>"

text \<open>
  A manager with two users, last active at times 0 and 50, and a time to live of 60 seconds.
\<close>

definition stale_entry :: ConversationEntry where
  "stale_entry = \<lparr>history = map message_of [Turn System ''sys'', Turn User ''x''], updated_at = 0\<rparr>"

definition recent_entry :: ConversationEntry where
  "recent_entry = \<lparr>history = map message_of [Turn System ''sys'', Turn User ''y''], updated_at = 50\<rparr>"

definition ttl_manager :: ConversationManager where
  "ttl_manager = \<lparr>tokenizer = None, config = one_pair_config,
     store = [1 \<mapsto> stale_entry, 2 \<mapsto> recent_entry]\<rparr>"





text \<open>The store of objects after a first \<open>get_history(7)\<close> on a new manager.\<close>

definition first_read :: ObjectStore where
  "first_read = snd (get_history_ref 0 7 (new_objects demo_config))"

section \<open>Properties\<close>

subsection \<open>The token-budget loop\<close>

lemma drop_pairs_0: "drop_pairs 0 h = h"
  by (cases h) (simp_all add: drop_pairs_def)

lemma drop_pairs_Suc: "drop_pairs (Suc k) h = drop_pairs k (take 1 h @ drop 3 h)"
  by (cases h) (simp_all add: drop_pairs_def)

lemma length_drop_pairs: "length (drop_pairs k h) \<le> length h"
  by (cases h) (simp_all add: drop_pairs_def)

lemma loop_unfold:
  "token_budget_loop m h =
     (if length h > 1 then
        (case token_count m h of
           Inl e \<Rightarrow> (Inl e, h)
         | Inr n \<Rightarrow>
             if int n \<le> history_max_tokens (config m) then (Inr (), h)
             else if length h > 2 then token_budget_loop m (take 1 h @ drop 3 h)
             else (Inr (), h))
      else (Inr (), h))"
  by (subst token_budget_loop.simps) (simp add: token_count_def split: sum.splits)

lemma loop_char:
  "\<exists>k. snd (token_budget_loop m h) = drop_pairs k h
      \<and> (\<forall>j<k. over_budget m (drop_pairs j h) \<and> 2 < length (drop_pairs j h))
      \<and> loop_stops m (drop_pairs k h) (fst (token_budget_loop m h))"
proof (induction m h rule: token_budget_loop.induct)
  case (1 m h)
  show ?case
  proof (cases "1 < length h \<and> over_budget m h \<and> 2 < length h")
    case False
    then have "snd (token_budget_loop m h) = h \<and> loop_stops m h (fst (token_budget_loop m h))"
      by (subst (1 2) loop_unfold)
         (auto simp: loop_stops_def over_budget_def within_budget_def split: sum.splits)
    then show ?thesis
      by (intro exI[of _ 0]) (simp add: drop_pairs_0)
  next
    case True
    then obtain n where n: "token_count m h = Inr n" "\<not> int n \<le> history_max_tokens (config m)"
      by (auto simp: over_budget_def split: sum.splits)
    from n obtain p where p: "build_prompt_from_history m h True = Inr p" "count_tokens m p = Inr n"
      by (auto simp: token_count_def split: sum.splits)
    let ?h = "take 1 h @ drop 3 h"
    have step: "token_budget_loop m h = token_budget_loop m ?h"
      using True n by (subst loop_unfold) simp
    from "1.IH"[OF _ p(1) p(2) n(2)] True
    obtain k where k: "snd (token_budget_loop m ?h) = drop_pairs k ?h"
      "\<forall>j<k. over_budget m (drop_pairs j ?h) \<and> 2 < length (drop_pairs j ?h)"
      "loop_stops m (drop_pairs k ?h) (fst (token_budget_loop m ?h))"
      by blast
    have "\<forall>j<Suc k. over_budget m (drop_pairs j h) \<and> 2 < length (drop_pairs j h)"
    proof (intro allI impI)
      fix j assume "j < Suc k"
      then show "over_budget m (drop_pairs j h) \<and> 2 < length (drop_pairs j h)"
        using True k(2) by (cases j) (simp_all add: drop_pairs_0 drop_pairs_Suc)
    qed
    with k(1,3) show ?thesis
      by (intro exI[of _ "Suc k"]) (simp add: step drop_pairs_Suc)
  qed
qed




subsection \<open>Fallback rendering\<close>

lemma prompt_parts_message_of:
  "concat (prompt_parts (map message_of turns)) = concat (map spec_render_turn turns)"
proof (induction turns)
  case Nil
  show ?case by simp
next
  case (Cons t ts)
  obtain r c where t: "t = Turn r c" by (cases t)
  show ?case using Cons by (cases r) (simp_all add: t tag_line_def)
qed

lemma fallback_prompt_message_of:
  "fallback_prompt (map message_of turns) cue = spec_fallback_render turns cue"
  by (simp add: fallback_prompt_def spec_fallback_render_def prompt_parts_message_of)

text \<open>
  C9. Without a tokenizer, rendering a history of System, User and Assistant turns gives, per
  turn in order, the tag line of its role, its content and a newline, followed by the line
  \<open><|assistant|>\<close> exactly when the generation cue is requested; \<open>build_prompt\<close> renders the
  stored history of an existing entry in this way and leaves the manager as it is; the
  history System "s", User "u" with the cue renders as the string of the scenario.
\<close>

theorem fallback_rendering:
  "tokenizer m = None \<Longrightarrow>
     build_prompt_from_history m (map message_of turns) cue = Inr (spec_fallback_render turns cue)
   \<and> (store m user_id = Some entry \<and> history entry = map message_of turns \<longrightarrow>
        build_prompt t user_id cue m = (Inr (spec_fallback_render turns cue), m))
   \<and> build_prompt_from_history m [message_of (Turn System ''s''), message_of (Turn User ''u'')] True
       = Inr (''<|system|>'' @ [CHR 0x0A] @ ''s'' @ [CHR 0x0A] @ ''<|user|>'' @ [CHR 0x0A] @ ''u''
              @ [CHR 0x0A] @ ''<|assistant|>'' @ [CHR 0x0A])"
proof -
  assume tok: "tokenizer m = None"
  have a: "\<And>ts c. build_prompt_from_history m (map message_of ts) c = Inr (spec_fallback_render ts c)"
    by (simp add: build_prompt_from_history_def tok fallback_prompt_message_of)
  have b: "store m user_id = Some entry \<and> history entry = map message_of turns \<longrightarrow>
        build_prompt t user_id cue m = (Inr (spec_fallback_render turns cue), m)"
    using a[of turns cue] by (auto simp: build_prompt_def ensure_entry_def)
  have c: "build_prompt_from_history m [message_of (Turn System ''s''), message_of (Turn User ''u'')] True
       = Inr (''<|system|>'' @ [CHR 0x0A] @ ''s'' @ [CHR 0x0A] @ ''<|user|>'' @ [CHR 0x0A] @ ''u''
              @ [CHR 0x0A] @ ''<|assistant|>'' @ [CHR 0x0A])"
    using a[of "[Turn System ''s'', Turn User ''u'']" True]
    by (simp add: spec_fallback_render_def)
  from a b c show ?thesis by blast
qed

theorem fallback_rendering_witness:
  "tokenizer (init None demo_config) = None
   \<and> build_prompt_from_history (init None demo_config)
        (map message_of [Turn System ''s'', Turn Assistant ''a'']) False
      = Inr (''<|system|>'' @ [CHR 0x0A] @ ''s'' @ [CHR 0x0A] @ ''<|assistant|>'' @ [CHR 0x0A] @ ''a'' @ [CHR 0x0A])
   \<and> tokenizer ttl_manager = None
   \<and> store ttl_manager 1 = Some stale_entry
   \<and> history stale_entry = map message_of [Turn System ''sys'', Turn User ''x'']
   \<and> build_prompt 5 1 True ttl_manager
      = (Inr (''<|system|>'' @ [CHR 0x0A] @ ''sys'' @ [CHR 0x0A] @ ''<|user|>'' @ [CHR 0x0A] @ ''x''
              @ [CHR 0x0A] @ ''<|assistant|>'' @ [CHR 0x0A]), ttl_manager)"
proof -
  have h: "tokenizer (init None demo_config) = None" by (simp add: init_def)
  from fallback_rendering[OF h, of "[Turn System ''s'', Turn Assistant ''a'']" False]
  have a: "build_prompt_from_history (init None demo_config)
        (map message_of [Turn System ''s'', Turn Assistant ''a'']) False
      = Inr (''<|system|>'' @ [CHR 0x0A] @ ''s'' @ [CHR 0x0A] @ ''<|assistant|>'' @ [CHR 0x0A] @ ''a'' @ [CHR 0x0A])"
    by (simp add: spec_fallback_render_def)
  have k: "tokenizer ttl_manager = None" by (simp add: ttl_manager_def)
  have e: "store ttl_manager 1 = Some stale_entry" by (simp add: ttl_manager_def)
  have l: "history stale_entry = map message_of [Turn System ''sys'', Turn User ''x'']"
    by (simp add: stale_entry_def)
  from fallback_rendering[OF k, where turns = "[Turn System ''sys'', Turn User ''x'']"
      and cue = True and user_id = 1 and entry = stale_entry and t = 5] e l
  have "build_prompt 5 1 True ttl_manager
      = (Inr (spec_fallback_render [Turn System ''sys'', Turn User ''x''] True), ttl_manager)"
    by blast
  then have b: "build_prompt 5 1 True ttl_manager
      = (Inr (''<|system|>'' @ [CHR 0x0A] @ ''sys'' @ [CHR 0x0A] @ ''<|user|>'' @ [CHR 0x0A] @ ''x''
              @ [CHR 0x0A] @ ''<|assistant|>'' @ [CHR 0x0A]), ttl_manager)"
    by (simp add: spec_fallback_render_def)
  from h a k e l b show ?thesis by blast
qed

subsection \<open>Shape of a truncated history\<close>

lemma pair_count_pass_cases:
  "pair_count_pass cfg h = h \<or>
   (0 < history_max_pairs cfg \<and> 1 + 2 * nat (history_max_pairs cfg) < length h \<and>
    pair_count_pass cfg h = hd h # drop (length h - 2 * nat (history_max_pairs cfg)) h)"
proof (cases "0 < history_max_pairs cfg \<and> int (length h) > 1 + history_max_pairs cfg * 2")
  case False
  then show ?thesis by (auto simp: pair_count_pass_def Let_def)
next
  case True
  then have "nat (1 + history_max_pairs cfg * 2 - 1) = 2 * nat (history_max_pairs cfg)"
    by (simp add: nat_mult_distrib)
  moreover from True have "1 + 2 * nat (history_max_pairs cfg) < length h" by linarith
  ultimately show ?thesis using True by (simp add: pair_count_pass_def Let_def)
qed

lemma length_pair_count_pass:
  "0 < history_max_pairs cfg \<Longrightarrow>
     int (length (pair_count_pass cfg h)) \<le> 1 + 2 * history_max_pairs cfg"
  using pair_count_pass_cases[of cfg h]
  by (auto simp: pair_count_pass_def Let_def)


lemma tl_drop_pairs: "tl (drop_pairs k h) = drop (2 * k) (tl h)"
  by (cases h) (simp_all add: drop_pairs_def)

lemma pinned_drop_pairs: "pinned cfg h \<Longrightarrow> pinned cfg (drop_pairs k h)"
proof -
  assume p: "pinned cfg h"
  then obtain x xs where h: "h = x # xs" by (cases h) (auto simp: pinned_def)
  have "set (drop (2 * k) xs) \<subseteq> set xs" by (rule set_drop_subset)
  with p show ?thesis by (auto simp: pinned_def h drop_pairs_def)
qed

lemma pinned_pair_count_pass: "pinned cfg h \<Longrightarrow> pinned cfg (pair_count_pass c h)"
proof -
  assume p: "pinned cfg h"
  then obtain x xs where h: "h = x # xs" by (cases h) (auto simp: pinned_def)
  from pair_count_pass_cases[of c h] show ?thesis
  proof
    assume "pair_count_pass c h = h" with p show ?thesis by simp
  next
    assume a: "0 < history_max_pairs c \<and> 1 + 2 * nat (history_max_pairs c) < length h \<and>
      pair_count_pass c h = hd h # drop (length h - 2 * nat (history_max_pairs c)) h"
    let ?n = "length h - 2 * nat (history_max_pairs c)"
    from a have "0 < ?n" by linarith
    then obtain n' where n': "?n = Suc n'" by (cases ?n) auto
    have "set (drop n' xs) \<subseteq> set xs" by (rule set_drop_subset)
    with p a show ?thesis unfolding n' by (auto simp: pinned_def h)
  qed
qed

lemma snd_loop_drop_pairs: "\<exists>k. snd (token_budget_loop m h) = drop_pairs k h"
  using loop_char[of m h] by blast

lemma truncate_shape:
  "\<exists>k. snd (truncate_history m h) = drop_pairs k (pair_count_pass (config m) h)"
proof (cases "history_max_tokens (config m) \<le> 0")
  case True
  then have "snd (truncate_history m h) = drop_pairs 0 (pair_count_pass (config m) h)"
    by (simp add: truncate_history_def Let_def drop_pairs_0)
  then show ?thesis ..
next
  case False
  then show ?thesis
    using snd_loop_drop_pairs[of m "pair_count_pass (config m) h"]
    by (simp add: truncate_history_def Let_def)
qed

lemma pinned_truncate: "pinned cfg h \<Longrightarrow> pinned cfg (snd (truncate_history m h))"
proof -
  assume p: "pinned cfg h"
  obtain k where k: "snd (truncate_history m h) = drop_pairs k (pair_count_pass (config m) h)"
    using truncate_shape[of m h] by blast
  from p have "pinned cfg (pair_count_pass (config m) h)" by (rule pinned_pair_count_pass)
  then have "pinned cfg (drop_pairs k (pair_count_pass (config m) h))" by (rule pinned_drop_pairs)
  with k show ?thesis by simp
qed

lemma pinned_append: "pinned cfg h \<Longrightarrow> role msg \<noteq> ''system'' \<Longrightarrow> pinned cfg (h @ [msg])"
  by (cases h) (auto simp: pinned_def)

lemma length_truncate:
  "0 < history_max_pairs (config m) \<Longrightarrow>
     int (length (snd (truncate_history m h))) \<le> 1 + 2 * history_max_pairs (config m)"
proof -
  assume n: "0 < history_max_pairs (config m)"
  obtain k where k: "snd (truncate_history m h) = drop_pairs k (pair_count_pass (config m) h)"
    using truncate_shape[of m h] by blast
  have "length (drop_pairs k (pair_count_pass (config m) h)) \<le> length (pair_count_pass (config m) h)"
    by (rule length_drop_pairs)
  with length_pair_count_pass[OF n, of h] k show ?thesis by simp
qed

subsection \<open>The store after a call\<close>

lemma purge_fields:
  "config (purge_inactive t m) = config m \<and> tokenizer (purge_inactive t m) = tokenizer m"
  by (simp add: purge_inactive_def Let_def)

lemma purge_store:
  "store (purge_inactive t m) u = Some e \<Longrightarrow> store m u = Some e"
  by (auto simp: purge_inactive_def Let_def split: if_splits option.splits)

lemma ensure_entry_fields:
  "config (snd (ensure_entry t u m)) = config m \<and> tokenizer (snd (ensure_entry t u m)) = tokenizer m"
  by (simp add: ensure_entry_def Let_def split: option.splits)

lemma ensure_entry_store:
  "store (snd (ensure_entry t u m)) v =
     (if v = u \<and> store m u = None
      then Some \<lparr>history = [system_message (config m)], updated_at = t\<rparr> else store m v)"
  by (simp add: ensure_entry_def Let_def split: option.splits)

lemma ensure_entry_fst:
  "fst (ensure_entry t u m) =
     (case store m u of None \<Rightarrow> \<lparr>history = [system_message (config m)], updated_at = t\<rparr>
      | Some e \<Rightarrow> e)"
  by (simp add: ensure_entry_def Let_def split: option.splits)

lemma add_assistant_message_snd:
  "snd (add_assistant_message t_new t_upd u body m) =
     (snd (ensure_entry t_new u m))\<lparr>store := (store (snd (ensure_entry t_new u m)))
        (u \<mapsto> \<lparr>history = snd (truncate_history (snd (ensure_entry t_new u m))
                     (history (fst (ensure_entry t_new u m)) @ [\<lparr>role = ''assistant'', content = body\<rparr>])),
               updated_at = t_upd\<rparr>)\<rparr>"
  by (simp add: add_assistant_message_def Let_def split: prod.splits)

lemma add_user_message_snd:
  "snd (add_user_message t_purge t_new t_upd u body m) =
     (snd (ensure_entry t_new u (purge_inactive t_purge m)))\<lparr>store :=
        (store (snd (ensure_entry t_new u (purge_inactive t_purge m))))
        (u \<mapsto> \<lparr>history = snd (truncate_history (snd (ensure_entry t_new u (purge_inactive t_purge m)))
                     (history (fst (ensure_entry t_new u (purge_inactive t_purge m)))
                        @ [\<lparr>role = ''user'', content = body\<rparr>])),
               updated_at = t_upd\<rparr>)\<rparr>"
  by (simp add: add_user_message_def Let_def split: prod.splits)

lemma perform_fields:
  "config (perform x m) = config m \<and> tokenizer (perform x m) = tokenizer m"
  by (cases x)
     (simp_all add: add_user_message_snd add_assistant_message_snd ensure_entry_fields purge_fields
        get_history_def build_prompt_def clear_history_def split: prod.splits,
      (metis ensure_entry_fields snd_conv)+)


lemma ensure_entry_history:
  assumes "P [system_message (config m)]" and "\<And>e. store m u = Some e \<Longrightarrow> P (history e)"
  shows "P (history (fst (ensure_entry t u m)))"
  using assms by (cases "store m u") (simp_all add: ensure_entry_fst)

lemma perform_preserves:
  assumes base: "P [system_message (config m)]"
    and step: "\<And>h r c m'. P h \<Longrightarrow> r \<noteq> ''system'' \<Longrightarrow> config m' = config m \<Longrightarrow>
                 P (snd (truncate_history m' (h @ [\<lparr>role = r, content = c\<rparr>])))"
    and inv: "\<And>u e. store m u = Some e \<Longrightarrow> P (history e)"
    and after: "store (perform x m) v = Some e"
  shows "P (history e)"
proof (cases x)
  case (AddUserMessage t_purge t_new t_upd u body)
  let ?m0 = "purge_inactive t_purge m"
  let ?m1 = "snd (ensure_entry t_new u ?m0)"
  have c0: "config ?m0 = config m" by (simp add: purge_fields)
  have inv0: "\<And>w e. store ?m0 w = Some e \<Longrightarrow> P (history e)"
    by (rule inv) (rule purge_store)
  have old: "P (history (fst (ensure_entry t_new u ?m0)))"
    by (rule ensure_entry_history) (simp_all add: c0 base inv0)
  show ?thesis
  proof (cases "v = u")
    case True
    have "P (snd (truncate_history ?m1 (history (fst (ensure_entry t_new u ?m0))
            @ [\<lparr>role = ''user'', content = body\<rparr>])))"
      by (rule step[OF old]) (simp_all add: ensure_entry_fields c0)
    with after True show ?thesis
      by (auto simp: AddUserMessage add_user_message_snd)
  next
    case False
    with after have "store ?m0 v = Some e"
      by (simp add: AddUserMessage add_user_message_snd ensure_entry_store)
    then show ?thesis by (rule inv0)
  qed
next
  case (AddAssistantMessage t_new t_upd u body)
  let ?m1 = "snd (ensure_entry t_new u m)"
  have old: "P (history (fst (ensure_entry t_new u m)))"
    by (rule ensure_entry_history) (simp_all add: base inv)
  show ?thesis
  proof (cases "v = u")
    case True
    have "P (snd (truncate_history ?m1 (history (fst (ensure_entry t_new u m))
            @ [\<lparr>role = ''assistant'', content = body\<rparr>])))"
      by (rule step[OF old]) (simp_all add: ensure_entry_fields)
    with after True show ?thesis
      by (auto simp: AddAssistantMessage add_assistant_message_snd)
  next
    case False
    with after have "store m v = Some e"
      by (simp add: AddAssistantMessage add_assistant_message_snd ensure_entry_store)
    then show ?thesis by (rule inv)
  qed
next
  case (GetHistory t_new u)
  with after have "store (snd (ensure_entry t_new u m)) v = Some e"
    by (simp add: get_history_def split: prod.splits)
  then show ?thesis using base inv
    by (auto simp: ensure_entry_store split: if_splits)
next
  case (BuildPrompt t_new u cue)
  with after have "store (snd (ensure_entry t_new u m)) v = Some e"
    by (simp add: build_prompt_def split: prod.splits)
  then show ?thesis using base inv
    by (auto simp: ensure_entry_store split: if_splits)
next
  case (ClearHistory u)
  with after have "store m v = Some e"
    by (auto simp: clear_history_def split: if_splits)
  then show ?thesis by (rule inv)
next
  case (PurgeInactive t)
  with after have "store m v = Some e"
    by (auto intro: purge_store)
  then show ?thesis by (rule inv)
qed


lemma run_preserves:
  assumes base: "P [system_message (config m)]"
    and step: "\<And>h r c m'. P h \<Longrightarrow> r \<noteq> ''system'' \<Longrightarrow> config m' = config m \<Longrightarrow>
                 P (snd (truncate_history m' (h @ [\<lparr>role = r, content = c\<rparr>])))"
    and inv: "\<And>u e. store m u = Some e \<Longrightarrow> P (history e)"
    and after: "store (run ops m) v = Some e"
  shows "P (history e)"
  using base step inv after
proof (induction ops arbitrary: m)
  case Nil
  then show ?case by (simp add: run_def)
next
  case (Cons x xs)
  have c: "config (perform x m) = config m" by (simp add: perform_fields)
  have r: "store (run xs (perform x m)) v = Some e"
    using Cons.prems(4) by (simp add: run_def)
  show ?case
  proof (rule Cons.IH[of "perform x m"])
    show "P [system_message (config (perform x m))]" using Cons.prems(1) by (simp add: c)
  next
    fix h r' c' and m' :: ConversationManager
    assume "P h" "r' \<noteq> ''system''" "config m' = config (perform x m)"
    then show "P (snd (truncate_history m' (h @ [\<lparr>role = r', content = c'\<rparr>])))"
      using Cons.prems(2) by (simp add: c)
  next
    fix u e'
    assume "store (perform x m) u = Some e'"
    then show "P (history e')"
    proof (rule perform_preserves[of P m x u e', rotated 3])
      show "P [system_message (config m)]" by (rule Cons.prems(1))
    next
      fix h2 r2 c2 and m2 :: ConversationManager
      assume "P h2" "r2 \<noteq> ''system''" "config m2 = config m"
      then show "P (snd (truncate_history m2 (h2 @ [\<lparr>role = r2, content = c2\<rparr>])))"
        by (rule Cons.prems(2))
    next
      fix u2 e2 assume "store m u2 = Some e2"
      then show "P (history e2)" by (rule Cons.prems(3))
    qed
  next
    show "store (run xs (perform x m)) v = Some e" by (rule r)
  qed
qed

lemma demo_run:
  "store (run demo_ops (init None one_pair_config)) 7
     = Some demo_entry"
  by (simp add: demo_entry_def demo_ops_def run_def init_def one_pair_config_def add_user_message_def
      add_assistant_message_def get_history_def purge_inactive_def ensure_entry_def
      truncate_history_def pair_count_pass_def system_message_def Let_def)


subsection \<open>Invariants of the reachable states\<close>

text \<open>
  C1. In every state reached from a new manager by any sequence of \<open>add_user_message\<close>,
  \<open>add_assistant_message\<close>, \<open>get_history\<close>, \<open>build_prompt\<close>, \<open>clear_history\<close> and
  \<open>purge_inactive\<close> calls, every stored history is non-empty, its turn 0 is the system turn
  with the configured prompt, and no later turn has the role \<open>system\<close>.
\<close>

theorem pinned_system_turn:
  assumes "store (run ops (init tok cfg)) user_id = Some entry"
  shows "history entry \<noteq> []
    \<and> history entry ! 0 = \<lparr>role = ''system'', content = system_prompt cfg\<rparr>
    \<and> (\<forall>i. 0 < i \<and> i < length (history entry) \<longrightarrow> role (history entry ! i) \<noteq> ''system'')"
proof -
  have p: "pinned cfg (history entry)"
  proof (rule run_preserves[of "pinned cfg" "init tok cfg" ops user_id entry])
    show "pinned cfg [system_message (config (init tok cfg))]"
      by (simp add: pinned_def init_def)
  next
    fix h r c and m' :: ConversationManager
    assume "pinned cfg h" "r \<noteq> ''system''"
    then have "pinned cfg (h @ [\<lparr>role = r, content = c\<rparr>])" by (simp add: pinned_append)
    then show "pinned cfg (snd (truncate_history m' (h @ [\<lparr>role = r, content = c\<rparr>])))"
      by (rule pinned_truncate)
  next
    fix u e assume "store (init tok cfg) u = Some e"
    then show "pinned cfg (history e)" by (simp add: init_def)
  next
    show "store (run ops (init tok cfg)) user_id = Some entry" by (rule assms)
  qed
  then obtain x xs where h: "history entry = x # xs" by (cases "history entry") (auto simp: pinned_def)
  have "\<forall>i. 0 < i \<and> i < length (history entry) \<longrightarrow> role (history entry ! i) \<noteq> ''system''"
  proof (intro allI impI)
    fix i assume i: "0 < i \<and> i < length (history entry)"
    then obtain j where j: "i = Suc j" by (cases i) auto
    with i have "xs ! j \<in> set xs" by (simp add: h)
    with p show "role (history entry ! i) \<noteq> ''system''" by (simp add: pinned_def h j)
  qed
  with p show ?thesis by (simp add: pinned_def h system_message_def)
qed

theorem pinned_system_turn_witness:
  "store (run demo_ops (init None one_pair_config)) 7 = Some demo_entry
   \<and> history demo_entry \<noteq> []
   \<and> history demo_entry ! 0 = \<lparr>role = ''system'', content = ''sys''\<rparr>
   \<and> role (history demo_entry ! 1) \<noteq> ''system''
   \<and> role (history demo_entry ! 2) \<noteq> ''system''"
proof -
  have l: "0 < (1::nat) \<and> 1 < length (history demo_entry)"
    "0 < (2::nat) \<and> 2 < length (history demo_entry)"
    by (simp_all add: demo_entry_def)
  have s: "system_prompt one_pair_config = ''sys''" by (simp add: one_pair_config_def)
  from pinned_system_turn[OF demo_run] l s demo_run show ?thesis by metis
qed

text \<open>
  C3. With \<open>history_max_pairs = N > 0\<close>, every history stored in a state reached from a new
  manager by any sequence of calls has at most \<open>1 + 2N\<close> turns.
\<close>

theorem pair_cap:
  assumes "0 < history_max_pairs cfg"
    and "store (run ops (init tok cfg)) user_id = Some entry"
  shows "int (length (history entry)) \<le> 1 + 2 * history_max_pairs cfg"
proof (rule run_preserves[of "\<lambda>h. int (length h) \<le> 1 + 2 * history_max_pairs cfg"
        "init tok cfg" ops user_id entry])
  show "int (length [system_message (config (init tok cfg))]) \<le> 1 + 2 * history_max_pairs cfg"
    using assms(1) by simp
next
  fix h r c and m' :: ConversationManager
  assume "config m' = config (init tok cfg)"
  then have "config m' = cfg" by (simp add: init_def)
  with length_truncate[of m' "h @ [\<lparr>role = r, content = c\<rparr>]"] assms(1)
  show "int (length (snd (truncate_history m' (h @ [\<lparr>role = r, content = c\<rparr>]))))
      \<le> 1 + 2 * history_max_pairs cfg" by simp
next
  fix u e assume "store (init tok cfg) u = Some e"
  then show "int (length (history e)) \<le> 1 + 2 * history_max_pairs cfg" by (simp add: init_def)
next
  show "store (run ops (init tok cfg)) user_id = Some entry" by (rule assms(2))
qed

theorem pair_cap_witness:
  "0 < history_max_pairs one_pair_config
   \<and> store (run demo_ops (init None one_pair_config)) 7 = Some demo_entry
   \<and> int (length (history demo_entry)) \<le> 1 + 2 * history_max_pairs one_pair_config"
proof -
  have n: "0 < history_max_pairs one_pair_config" by (simp add: one_pair_config_def)
  from pair_cap[OF n demo_run] n demo_run show ?thesis by blast
qed

subsection \<open>Running calls, and the pair-count pass\<close>

lemma run_Cons: "run (x # xs) m = run xs (perform x m)"
  by (simp add: run_def)

lemma run_Nil: "run [] m = m"
  by (simp add: run_def)

lemma truncate_no_budget:
  "history_max_tokens (config m) \<le> 0 \<Longrightarrow>
     truncate_history m h = (Inr (), pair_count_pass (config m) h)"
  by (simp add: truncate_history_def Let_def)

lemma purge_store_eq:
  "store (purge_inactive current m) u =
     (case store m u of None \<Rightarrow> None
      | Some e \<Rightarrow> if live m current e then Some e else None)"
  by (auto simp: purge_inactive_def live_def Let_def split: option.splits)

lemma pair_count_pass_suffix:
  assumes "0 < history_max_pairs cfg"
    and "1 + 2 * history_max_pairs cfg < int (length h)"
  shows "\<exists>pre suf. h = pre @ suf \<and> int (length suf) = 2 * history_max_pairs cfg
           \<and> pair_count_pass cfg h = h ! 0 # suf"
proof -
  let ?n = "length h - 2 * nat (history_max_pairs cfg)"
  from assms have lt: "1 + 2 * nat (history_max_pairs cfg) < length h" by linarith
  have "nat (1 + history_max_pairs cfg * 2 - 1) = 2 * nat (history_max_pairs cfg)"
    using assms(1) by (simp add: nat_mult_distrib)
  then have p: "pair_count_pass cfg h = hd h # drop ?n h"
    using assms by (simp add: pair_count_pass_def Let_def)
  from lt have ne: "h \<noteq> []" by auto
  have "h = take ?n h @ drop ?n h" by simp
  moreover have "int (length (drop ?n h)) = 2 * history_max_pairs cfg"
    using lt assms(1) by simp
  moreover have "pair_count_pass cfg h = h ! 0 # drop ?n h"
    using p ne by (simp add: hd_conv_nth)
  ultimately show ?thesis by blast
qed

lemma pair_count_pass_short:
  "\<not> (0 < history_max_pairs cfg \<and> 1 + 2 * history_max_pairs cfg < int (length h)) \<Longrightarrow>
     pair_count_pass cfg h = h"
  by (auto simp: pair_count_pass_def Let_def)


subsection \<open>Truncation depends on the configuration and the tokenizer only\<close>

lemma build_prompt_from_history_cong:
  assumes "tokenizer m' = tokenizer m"
  shows "build_prompt_from_history m' h cue = build_prompt_from_history m h cue"
  unfolding build_prompt_from_history_def assms by (rule refl)

lemma count_tokens_cong:
  assumes "tokenizer m' = tokenizer m"
  shows "count_tokens m' p = count_tokens m p"
  unfolding count_tokens_def assms by (rule refl)

lemma token_count_cong:
  assumes "tokenizer m' = tokenizer m"
  shows "token_count m' h = token_count m h"
  unfolding token_count_def build_prompt_from_history_cong[OF assms] count_tokens_cong[OF assms]
  by (rule refl)

lemma loop_stop:
  "\<not> (1 < length h \<and> over_budget m h \<and> 2 < length h) \<Longrightarrow>
     token_budget_loop m h =
       (if 1 < length h
        then (case token_count m h of Inl e \<Rightarrow> (Inl e, h) | Inr n \<Rightarrow> (Inr (), h))
        else (Inr (), h))"
  by (subst loop_unfold) (auto simp: over_budget_def split: sum.splits)

lemma loop_step:
  "1 < length h \<and> over_budget m h \<and> 2 < length h \<Longrightarrow>
     token_budget_loop m h = token_budget_loop m (take 1 h @ drop 3 h)"
  by (subst loop_unfold) (auto simp: over_budget_def split: sum.splits)

lemma over_budget_cong:
  assumes "config m' = config m" and "tokenizer m' = tokenizer m"
  shows "over_budget m' h = over_budget m h"
  unfolding over_budget_def token_count_cong[OF assms(2)] assms(1) by (rule refl)

lemma token_budget_loop_cong:
  "config m' = config m \<Longrightarrow> tokenizer m' = tokenizer m \<Longrightarrow>
     token_budget_loop m' h = token_budget_loop m h"
proof (induction m h rule: token_budget_loop.induct)
  case (1 m h)
  have tc: "token_count m' h = token_count m h"
    using "1.prems"(2) by (rule token_count_cong)
  have ob: "over_budget m' h = over_budget m h"
    using "1.prems" by (rule over_budget_cong)
  show ?case
  proof (cases "1 < length h \<and> over_budget m h \<and> 2 < length h")
    case False
    then have "\<not> (1 < length h \<and> over_budget m' h \<and> 2 < length h)"
      by (simp add: ob)
    then have "token_budget_loop m' h =
       (if 1 < length h
        then (case token_count m' h of Inl e \<Rightarrow> (Inl e, h) | Inr n \<Rightarrow> (Inr (), h))
        else (Inr (), h))"
      by (rule loop_stop)
    also have "\<dots> = token_budget_loop m h"
      using loop_stop[OF False] by (simp only: tc)
    finally show ?thesis .
  next
    case True
    then obtain n where n: "token_count m h = Inr n" "\<not> int n \<le> history_max_tokens (config m)"
      by (auto simp: over_budget_def split: sum.splits)
    from n obtain p where p: "build_prompt_from_history m h True = Inr p" "count_tokens m p = Inr n"
      by (auto simp: token_count_def split: sum.splits)
    from True have len: "1 < length h" "2 < length h" by simp_all
    have ih: "token_budget_loop m' (take 1 h @ drop 3 h) = token_budget_loop m (take 1 h @ drop 3 h)"
      by (rule "1.IH"[OF len(1) p(1) p(2) n(2) len(2) "1.prems"])
    have l: "token_budget_loop m h = token_budget_loop m (take 1 h @ drop 3 h)"
      using True by (rule loop_step)
    from True have "1 < length h \<and> over_budget m' h \<and> 2 < length h" by (simp add: ob)
    then have r: "token_budget_loop m' h = token_budget_loop m' (take 1 h @ drop 3 h)"
      by (rule loop_step)
    show ?thesis by (simp only: l r ih)
  qed
qed

lemma truncate_history_cong:
  assumes "config m' = config m" and "tokenizer m' = tokenizer m"
  shows "truncate_history m' h = truncate_history m h"
  unfolding truncate_history_def token_budget_loop_cong[OF assms] assms(1) by (rule refl)

lemma truncate_after_ensure:
  "truncate_history (snd (ensure_entry t u m)) h = truncate_history m h"
  by (rule truncate_history_cong) (simp_all add: ensure_entry_fields)

lemma truncate_after_purge:
  "truncate_history (purge_inactive t m) h = truncate_history m h"
  by (rule truncate_history_cong) (simp_all add: purge_fields)

lemma add_assistant_message_eq:
  "add_assistant_message t_new t_upd u body m =
     (fst (truncate_history m (history (fst (ensure_entry t_new u m))
             @ [\<lparr>role = ''assistant'', content = body\<rparr>])),
      (snd (ensure_entry t_new u m))\<lparr>store := (store (snd (ensure_entry t_new u m)))
        (u \<mapsto> \<lparr>history = snd (truncate_history m (history (fst (ensure_entry t_new u m))
                     @ [\<lparr>role = ''assistant'', content = body\<rparr>])),
               updated_at = t_upd\<rparr>)\<rparr>)"
  by (simp add: add_assistant_message_def Let_def case_prod_beta truncate_after_ensure)

lemma add_user_message_eq:
  "add_user_message t_purge t_new t_upd u body m =
     (fst (truncate_history m (history (fst (ensure_entry t_new u (purge_inactive t_purge m)))
             @ [\<lparr>role = ''user'', content = body\<rparr>])),
      (snd (ensure_entry t_new u (purge_inactive t_purge m)))\<lparr>store :=
        (store (snd (ensure_entry t_new u (purge_inactive t_purge m))))
        (u \<mapsto> \<lparr>history = snd (truncate_history m
                     (history (fst (ensure_entry t_new u (purge_inactive t_purge m)))
                        @ [\<lparr>role = ''user'', content = body\<rparr>])),
               updated_at = t_upd\<rparr>)\<rparr>)"
  by (simp add: add_user_message_def Let_def case_prod_beta truncate_after_ensure
      truncate_after_purge)

subsection \<open>Appending while the token budget deletes nothing\<close>

lemma truncate_allowed:
  assumes "budget_allows m (pair_count_pass (config m) h)"
  shows "snd (truncate_history m h) = pair_count_pass (config m) h"
proof (cases "history_max_tokens (config m) \<le> 0")
  case True
  then show ?thesis by (simp add: truncate_history_def Let_def)
next
  case False
  let ?h1 = "pair_count_pass (config m) h"
  from False assms have "\<not> (1 < length ?h1 \<and> over_budget m ?h1 \<and> 2 < length ?h1)"
    by (simp add: budget_allows_def)
  then have "snd (token_budget_loop m ?h1) = ?h1"
    by (simp add: loop_stop split: sum.splits)
  with False show ?thesis by (simp add: truncate_history_def Let_def)
qed

lemma truncate_short:
  assumes "length (pair_count_pass (config m) h) \<le> 2"
  shows "snd (truncate_history m h) = pair_count_pass (config m) h"
proof (cases "history_max_tokens (config m) \<le> 0")
  case True
  then show ?thesis by (simp add: truncate_history_def Let_def)
next
  case False
  let ?h1 = "pair_count_pass (config m) h"
  from assms have "\<not> (1 < length ?h1 \<and> over_budget m ?h1 \<and> 2 < length ?h1)"
    by simp
  then have "snd (token_budget_loop m ?h1) = ?h1"
    by (simp add: loop_stop split: sum.splits)
  with False show ?thesis by (simp add: truncate_history_def Let_def)
qed

lemma add_user_message_store_gen:
  "store (snd (add_user_message t_purge t_new t_upd u body m)) u =
     Some \<lparr>history = snd (truncate_history m
        ((case store m u of
            None \<Rightarrow> [system_message (config m)]
          | Some e \<Rightarrow> if live m t_purge e then history e else [system_message (config m)])
         @ [\<lparr>role = ''user'', content = body\<rparr>])),
       updated_at = t_upd\<rparr>"
  by (simp add: add_user_message_eq ensure_entry_fst purge_fields purge_store_eq
      split: option.splits)

lemma add_assistant_message_store_gen:
  "store (snd (add_assistant_message t_new t_upd u body m)) u =
     Some \<lparr>history = snd (truncate_history m
        ((case store m u of
            None \<Rightarrow> [system_message (config m)]
          | Some e \<Rightarrow> history e)
         @ [\<lparr>role = ''assistant'', content = body\<rparr>])),
       updated_at = t_upd\<rparr>"
  by (simp add: add_assistant_message_eq ensure_entry_fst split: option.splits)

lemma perform_truncate:
  "truncate_history (perform x m) h = truncate_history m h"
  by (rule truncate_history_cong) (simp_all add: perform_fields)

lemma truncate_to:
  assumes "pair_count_pass (config m) h = h'" and "budget_allows m h' \<or> length h' \<le> 2"
  shows "snd (truncate_history m h) = h'"
  using assms truncate_allowed[of m h] truncate_short[of m h] by auto

lemma perform_live: "live (perform x m) t e = live m t e"
  by (simp add: live_def perform_fields)

lemmas budget_eval =
  budget_allows_def over_budget_def token_count_def build_prompt_from_history_def
  fallback_prompt_def tag_line_def count_tokens_def py_split_def isspace_def init_def

text \<open>
  C4. With \<open>history_max_pairs > 0\<close> and \<open>max_messages = 1 + 2 * history_max_pairs\<close>, the
  pair-count pass turns a history longer than \<open>max_messages\<close> into its turn 0 followed by
  its last \<open>max_messages - 1\<close> turns in their order, and leaves a shorter one as it is.
  With \<open>history_max_pairs = 2\<close>, no expiry between the calls and a token budget that is disabled
  or not exceeded by any of the histories, appending the pairs A, B, C to a fresh entry
  leaves the system turn followed by the turns of B and C.
\<close>

theorem pair_count_pass_algorithm:
  "(0 < history_max_pairs cfg \<and> 1 + 2 * history_max_pairs cfg < int (length h) \<longrightarrow>
      (\<exists>pre suf. h = pre @ suf \<and> int (length suf) = (1 + 2 * history_max_pairs cfg) - 1
          \<and> pair_count_pass cfg h = h ! 0 # suf))
   \<and> (0 < history_max_pairs cfg \<and> int (length h) \<le> 1 + 2 * history_max_pairs cfg \<longrightarrow>
        pair_count_pass cfg h = h)
   \<and> (history_max_pairs (config m) = 2 \<and> store m u = None
        \<and> (history_ttl_seconds (config m) \<le> 0
            \<or> (t3 - t2 \<le> real_of_int (history_ttl_seconds (config m))
                \<and> t5 - t4 \<le> real_of_int (history_ttl_seconds (config m))))
        \<and> budget_allows m (map message_of [Turn System (system_prompt (config m)),
              Turn User a_user, Turn Assistant a_asst])
        \<and> budget_allows m (map message_of [Turn System (system_prompt (config m)),
              Turn User a_user, Turn Assistant a_asst, Turn User b_user])
        \<and> budget_allows m (map message_of [Turn System (system_prompt (config m)),
              Turn User a_user, Turn Assistant a_asst, Turn User b_user, Turn Assistant b_asst])
        \<and> budget_allows m (map message_of [Turn System (system_prompt (config m)),
              Turn Assistant a_asst, Turn User b_user, Turn Assistant b_asst, Turn User c_user])
        \<and> budget_allows m (map message_of [Turn System (system_prompt (config m)),
              Turn User b_user, Turn Assistant b_asst, Turn User c_user, Turn Assistant c_asst])
        \<longrightarrow>
        store (run [AddUserMessage t1 t1 t1 u a_user, AddAssistantMessage t2 t2 u a_asst,
                    AddUserMessage t3 t3 t3 u b_user, AddAssistantMessage t4 t4 u b_asst,
                    AddUserMessage t5 t5 t5 u c_user, AddAssistantMessage t6 t6 u c_asst] m) u
          = Some \<lparr>history = map message_of
                     [Turn System (system_prompt (config m)), Turn User b_user,
                      Turn Assistant b_asst, Turn User c_user, Turn Assistant c_asst],
                   updated_at = t6\<rparr>)"
proof (intro conjI impI)
  assume "0 < history_max_pairs cfg \<and> 1 + 2 * history_max_pairs cfg < int (length h)"
  then show "\<exists>pre suf. h = pre @ suf \<and> int (length suf) = (1 + 2 * history_max_pairs cfg) - 1
          \<and> pair_count_pass cfg h = h ! 0 # suf"
    using pair_count_pass_suffix[of cfg h] by simp
next
  assume "0 < history_max_pairs cfg \<and> int (length h) \<le> 1 + 2 * history_max_pairs cfg"
  then show "pair_count_pass cfg h = h"
    by (simp add: pair_count_pass_short)
next
  let ?S = "Turn System (system_prompt (config m))"
  assume a: "history_max_pairs (config m) = 2 \<and> store m u = None
        \<and> (history_ttl_seconds (config m) \<le> 0
            \<or> (t3 - t2 \<le> real_of_int (history_ttl_seconds (config m))
                \<and> t5 - t4 \<le> real_of_int (history_ttl_seconds (config m))))
        \<and> budget_allows m (map message_of [?S, Turn User a_user, Turn Assistant a_asst])
        \<and> budget_allows m (map message_of [?S, Turn User a_user, Turn Assistant a_asst,
              Turn User b_user])
        \<and> budget_allows m (map message_of [?S, Turn User a_user, Turn Assistant a_asst,
              Turn User b_user, Turn Assistant b_asst])
        \<and> budget_allows m (map message_of [?S, Turn Assistant a_asst, Turn User b_user,
              Turn Assistant b_asst, Turn User c_user])
        \<and> budget_allows m (map message_of [?S, Turn User b_user, Turn Assistant b_asst,
              Turn User c_user, Turn Assistant c_asst])"
  define m1 where "m1 = perform (AddUserMessage t1 t1 t1 u a_user) m"
  define m2 where "m2 = perform (AddAssistantMessage t2 t2 u a_asst) m1"
  define m3 where "m3 = perform (AddUserMessage t3 t3 t3 u b_user) m2"
  define m4 where "m4 = perform (AddAssistantMessage t4 t4 u b_asst) m3"
  define m5 where "m5 = perform (AddUserMessage t5 t5 t5 u c_user) m4"
  define m6 where "m6 = perform (AddAssistantMessage t6 t6 u c_asst) m5"
  have c: "config m1 = config m" "config m2 = config m" "config m3 = config m"
    "config m4 = config m" "config m5 = config m"
    unfolding m1_def m2_def m3_def m4_def m5_def by (simp_all only: perform_fields)
  have tr: "\<And>h. truncate_history m1 h = truncate_history m h"
    "\<And>h. truncate_history m2 h = truncate_history m h"
    "\<And>h. truncate_history m3 h = truncate_history m h"
    "\<And>h. truncate_history m4 h = truncate_history m h"
    "\<And>h. truncate_history m5 h = truncate_history m h"
    unfolding m1_def m2_def m3_def m4_def m5_def by (simp_all only: perform_truncate)
  have lv: "\<And>t e. live m2 t e = live m t e" "\<And>t e. live m4 t e = live m t e"
    unfolding m1_def m2_def m3_def m4_def by (simp_all only: perform_live)
  have n: "history_max_pairs (config m) = 2" using a by simp
  have none: "store m u = None" using a by simp
  have k1: "snd (truncate_history m ([system_message (config m)] @ [\<lparr>role = ''user'', content = a_user\<rparr>]))
      = map message_of [?S, Turn User a_user]"
    by (rule truncate_to) (simp_all add: pair_count_pass_def n system_message_def)
  have s1: "store m1 u = Some \<lparr>history = map message_of [?S, Turn User a_user], updated_at = t1\<rparr>"
    unfolding m1_def perform.simps add_user_message_store_gen using none k1 by simp
  have k2: "snd (truncate_history m (map message_of [?S, Turn User a_user]
        @ [\<lparr>role = ''assistant'', content = a_asst\<rparr>]))
      = map message_of [?S, Turn User a_user, Turn Assistant a_asst]"
    using a by (intro truncate_to) (simp_all add: pair_count_pass_def n)
  have s2: "store m2 u = Some \<lparr>history = map message_of [?S, Turn User a_user, Turn Assistant a_asst],
      updated_at = t2\<rparr>"
    unfolding m2_def perform.simps add_assistant_message_store_gen using s1 k2 by (simp add: tr)
  have l3: "live m t3 \<lparr>history = map message_of [?S, Turn User a_user, Turn Assistant a_asst],
      updated_at = t2\<rparr>"
    using a by (auto simp: live_def)
  have k3: "snd (truncate_history m (map message_of [?S, Turn User a_user, Turn Assistant a_asst]
        @ [\<lparr>role = ''user'', content = b_user\<rparr>]))
      = map message_of [?S, Turn User a_user, Turn Assistant a_asst, Turn User b_user]"
    using a by (intro truncate_to) (simp_all add: pair_count_pass_def n)
  have s3: "store m3 u = Some \<lparr>history = map message_of
      [?S, Turn User a_user, Turn Assistant a_asst, Turn User b_user], updated_at = t3\<rparr>"
    unfolding m3_def perform.simps add_user_message_store_gen using s2 l3 k3 by (simp add: tr lv)
  have k4: "snd (truncate_history m (map message_of [?S, Turn User a_user, Turn Assistant a_asst,
        Turn User b_user] @ [\<lparr>role = ''assistant'', content = b_asst\<rparr>]))
      = map message_of [?S, Turn User a_user, Turn Assistant a_asst, Turn User b_user,
          Turn Assistant b_asst]"
    using a by (intro truncate_to) (simp_all add: pair_count_pass_def n)
  have s4: "store m4 u = Some \<lparr>history = map message_of
      [?S, Turn User a_user, Turn Assistant a_asst, Turn User b_user, Turn Assistant b_asst],
      updated_at = t4\<rparr>"
    unfolding m4_def perform.simps add_assistant_message_store_gen using s3 k4 by (simp add: tr)
  have l5: "live m t5 \<lparr>history = map message_of
      [?S, Turn User a_user, Turn Assistant a_asst, Turn User b_user, Turn Assistant b_asst],
      updated_at = t4\<rparr>"
    using a by (auto simp: live_def)
  have k5: "snd (truncate_history m (map message_of [?S, Turn User a_user, Turn Assistant a_asst,
        Turn User b_user, Turn Assistant b_asst] @ [\<lparr>role = ''user'', content = c_user\<rparr>]))
      = map message_of [?S, Turn Assistant a_asst, Turn User b_user, Turn Assistant b_asst,
          Turn User c_user]"
    using a by (intro truncate_to) (simp_all add: pair_count_pass_def n)
  have s5: "store m5 u = Some \<lparr>history = map message_of
      [?S, Turn Assistant a_asst, Turn User b_user, Turn Assistant b_asst, Turn User c_user],
      updated_at = t5\<rparr>"
    unfolding m5_def perform.simps add_user_message_store_gen using s4 l5 k5 by (simp add: tr lv)
  have k6: "snd (truncate_history m (map message_of [?S, Turn Assistant a_asst, Turn User b_user,
        Turn Assistant b_asst, Turn User c_user] @ [\<lparr>role = ''assistant'', content = c_asst\<rparr>]))
      = map message_of [?S, Turn User b_user, Turn Assistant b_asst, Turn User c_user,
          Turn Assistant c_asst]"
    using a by (intro truncate_to) (simp_all add: pair_count_pass_def n)
  have s6: "store m6 u = Some \<lparr>history = map message_of
      [?S, Turn User b_user, Turn Assistant b_asst, Turn User c_user, Turn Assistant c_asst],
      updated_at = t6\<rparr>"
    unfolding m6_def perform.simps add_assistant_message_store_gen using s5 k6 by (simp add: tr)
  have "run [AddUserMessage t1 t1 t1 u a_user, AddAssistantMessage t2 t2 u a_asst,
             AddUserMessage t3 t3 t3 u b_user, AddAssistantMessage t4 t4 u b_asst,
             AddUserMessage t5 t5 t5 u c_user, AddAssistantMessage t6 t6 u c_asst] m = m6"
    by (simp only: run_Cons run_Nil m1_def m2_def m3_def m4_def m5_def m6_def)
  with s6 show "store (run [AddUserMessage t1 t1 t1 u a_user, AddAssistantMessage t2 t2 u a_asst,
                    AddUserMessage t3 t3 t3 u b_user, AddAssistantMessage t4 t4 u b_asst,
                    AddUserMessage t5 t5 t5 u c_user, AddAssistantMessage t6 t6 u c_asst] m) u
          = Some \<lparr>history = map message_of
                     [?S, Turn User b_user,
                      Turn Assistant b_asst, Turn User c_user, Turn Assistant c_asst],
                   updated_at = t6\<rparr>"
    by simp
qed

theorem pair_count_pass_algorithm_witness:
  "0 < history_max_pairs one_pair_config
   \<and> 1 + 2 * history_max_pairs one_pair_config < int (length demo_history)
   \<and> (\<exists>pre suf. demo_history = pre @ suf
         \<and> int (length suf) = (1 + 2 * history_max_pairs one_pair_config) - 1
         \<and> pair_count_pass one_pair_config demo_history = demo_history ! 0 # suf)
   \<and> int (length (take 3 demo_history)) \<le> 1 + 2 * history_max_pairs one_pair_config
   \<and> pair_count_pass one_pair_config (take 3 demo_history) = take 3 demo_history
   \<and> history_max_pairs (config (init None default_two_pair_config)) = 2
   \<and> store (init None default_two_pair_config) 7 = None
   \<and> 3 - 2 \<le> real_of_int (history_ttl_seconds (config (init None default_two_pair_config)))
   \<and> 5 - 4 \<le> real_of_int (history_ttl_seconds (config (init None default_two_pair_config)))
   \<and> budget_allows (init None default_two_pair_config) (map message_of
        [Turn System (system_prompt (config (init None default_two_pair_config))),
         Turn Assistant ''a2'', Turn User ''b1'', Turn Assistant ''b2'', Turn User ''c1''])
   \<and> store (run [AddUserMessage 1 1 1 7 ''a1'', AddAssistantMessage 2 2 7 ''a2'',
                   AddUserMessage 3 3 3 7 ''b1'', AddAssistantMessage 4 4 7 ''b2'',
                   AddUserMessage 5 5 5 7 ''c1'', AddAssistantMessage 6 6 7 ''c2'']
          (init None default_two_pair_config)) 7
        = Some \<lparr>history = map message_of
                   [Turn System (system_prompt (config (init None default_two_pair_config))),
                    Turn User ''b1'', Turn Assistant ''b2'', Turn User ''c1'', Turn Assistant ''c2''],
                 updated_at = 6\<rparr>"
proof -
  let ?m = "init None default_two_pair_config"
  let ?S = "Turn System (system_prompt (config ?m))"
  have a: "0 < history_max_pairs one_pair_config"
    "1 + 2 * history_max_pairs one_pair_config < int (length demo_history)"
    "int (length (take 3 demo_history)) \<le> 1 + 2 * history_max_pairs one_pair_config"
    by (simp_all add: one_pair_config_def demo_history_def)
  have b: "history_max_pairs (config ?m) = 2"
    "store ?m 7 = None"
    "3 - 2 \<le> real_of_int (history_ttl_seconds (config ?m))"
    "5 - 4 \<le> real_of_int (history_ttl_seconds (config ?m))"
    by (simp_all add: default_two_pair_config_def init_def)
  have c: "budget_allows ?m (map message_of [?S, Turn User ''a1'', Turn Assistant ''a2''])"
    "budget_allows ?m (map message_of [?S, Turn User ''a1'', Turn Assistant ''a2'', Turn User ''b1''])"
    "budget_allows ?m (map message_of [?S, Turn User ''a1'', Turn Assistant ''a2'', Turn User ''b1'',
        Turn Assistant ''b2''])"
    "budget_allows ?m (map message_of [?S, Turn Assistant ''a2'', Turn User ''b1'',
        Turn Assistant ''b2'', Turn User ''c1''])"
    "budget_allows ?m (map message_of [?S, Turn User ''b1'', Turn Assistant ''b2'', Turn User ''c1'',
        Turn Assistant ''c2''])"
    by (simp_all add: budget_eval default_two_pair_config_def)
  note long = pair_count_pass_algorithm[where cfg = one_pair_config and h = demo_history
      and m = ?m and u = 7 and ?t1.0 = 1 and ?t2.0 = 2 and ?t3.0 = 3
      and ?t4.0 = 4 and ?t5.0 = 5 and ?t6.0 = 6 and a_user = "''a1''" and a_asst = "''a2''"
      and b_user = "''b1''" and b_asst = "''b2''" and c_user = "''c1''" and c_asst = "''c2''"]
  note short = pair_count_pass_algorithm[where cfg = one_pair_config and h = "take 3 demo_history"
      and m = ?m and u = 7 and ?t1.0 = 1 and ?t2.0 = 2 and ?t3.0 = 3
      and ?t4.0 = 4 and ?t5.0 = 5 and ?t6.0 = 6 and a_user = "''a1''" and a_asst = "''a2''"
      and b_user = "''b1''" and b_asst = "''b2''" and c_user = "''c1''" and c_asst = "''c2''"]
  from long short a b c show ?thesis by blast
qed

text \<open>
  C10. With \<open>history_max_pairs = 1\<close>, no expiry before the second user message and a token
  budget that is disabled or not exceeded, the calls \<open>add_user_message m1\<close>, \<open>add_assistant_message r1\<close>,
  \<open>add_user_message m2\<close> for a fresh user leave the history System, Assistant \<open>r1\<close>, User
  \<open>m2\<close>: the pair of \<open>m1\<close> and \<open>r1\<close> is split and the assistant turn is at index 1.
\<close>

theorem pair_split_at_cap:
  assumes "history_max_pairs (config m) = 1" and "store m u = None"
    and "history_ttl_seconds (config m) \<le> 0
         \<or> t3 - t2 \<le> real_of_int (history_ttl_seconds (config m))"
    and "budget_allows m (map message_of
           [Turn System (system_prompt (config m)), Turn User m1, Turn Assistant r1])"
    and "budget_allows m (map message_of
           [Turn System (system_prompt (config m)), Turn Assistant r1, Turn User m2])"
  shows "store (run [AddUserMessage t1 t1 t1 u m1, AddAssistantMessage t2 t2 u r1,
                     AddUserMessage t3 t3 t3 u m2] m) u
          = Some \<lparr>history = map message_of
                     [Turn System (system_prompt (config m)), Turn Assistant r1, Turn User m2],
                   updated_at = t3\<rparr>"
proof -
  let ?S = "Turn System (system_prompt (config m))"
  define s1 where "s1 = perform (AddUserMessage t1 t1 t1 u m1) m"
  define s2 where "s2 = perform (AddAssistantMessage t2 t2 u r1) s1"
  define s3 where "s3 = perform (AddUserMessage t3 t3 t3 u m2) s2"
  have tr: "\<And>h. truncate_history s1 h = truncate_history m h"
    "\<And>h. truncate_history s2 h = truncate_history m h"
    unfolding s1_def s2_def by (simp_all only: perform_truncate)
  have lv: "\<And>t e. live s2 t e = live m t e"
    unfolding s1_def s2_def by (simp only: perform_live)
  have n: "history_max_pairs (config m) = 1" by (rule assms(1))
  have k1: "snd (truncate_history m ([system_message (config m)] @ [\<lparr>role = ''user'', content = m1\<rparr>]))
      = map message_of [?S, Turn User m1]"
    by (rule truncate_to) (simp_all add: pair_count_pass_def n system_message_def)
  have e1: "store s1 u = Some \<lparr>history = map message_of [?S, Turn User m1], updated_at = t1\<rparr>"
    unfolding s1_def perform.simps add_user_message_store_gen using assms(2) k1 by simp
  have k2: "snd (truncate_history m (map message_of [?S, Turn User m1]
        @ [\<lparr>role = ''assistant'', content = r1\<rparr>]))
      = map message_of [?S, Turn User m1, Turn Assistant r1]"
    using assms(4) by (intro truncate_to) (simp_all add: pair_count_pass_def n)
  have e2: "store s2 u = Some \<lparr>history = map message_of [?S, Turn User m1, Turn Assistant r1],
      updated_at = t2\<rparr>"
    unfolding s2_def perform.simps add_assistant_message_store_gen using e1 k2 by (simp add: tr)
  have l3: "live m t3 \<lparr>history = map message_of [?S, Turn User m1, Turn Assistant r1],
      updated_at = t2\<rparr>"
    using assms(3) by (auto simp: live_def)
  have k3: "snd (truncate_history m (map message_of [?S, Turn User m1, Turn Assistant r1]
        @ [\<lparr>role = ''user'', content = m2\<rparr>]))
      = map message_of [?S, Turn Assistant r1, Turn User m2]"
    using assms(5) by (intro truncate_to) (simp_all add: pair_count_pass_def n)
  have e3: "store s3 u = Some \<lparr>history = map message_of [?S, Turn Assistant r1, Turn User m2],
      updated_at = t3\<rparr>"
    unfolding s3_def perform.simps add_user_message_store_gen using e2 l3 k3 by (simp add: tr lv)
  have "run [AddUserMessage t1 t1 t1 u m1, AddAssistantMessage t2 t2 u r1,
             AddUserMessage t3 t3 t3 u m2] m = s3"
    by (simp only: run_Cons run_Nil s1_def s2_def s3_def)
  with e3 show ?thesis by simp
qed

theorem pair_split_at_cap_witness:
  "history_max_pairs (config (init None default_one_pair_config)) = 1
   \<and> store (init None default_one_pair_config) 7 = None
   \<and> 20 - 11 \<le> real_of_int (history_ttl_seconds (config (init None default_one_pair_config)))
   \<and> budget_allows (init None default_one_pair_config) (map message_of
        [Turn System (system_prompt (config (init None default_one_pair_config))),
         Turn User ''m1'', Turn Assistant ''r1''])
   \<and> budget_allows (init None default_one_pair_config) (map message_of
        [Turn System (system_prompt (config (init None default_one_pair_config))),
         Turn Assistant ''r1'', Turn User ''m2''])
   \<and> store (run [AddUserMessage 10 10 10 7 ''m1'', AddAssistantMessage 11 11 7 ''r1'',
                   AddUserMessage 20 20 20 7 ''m2''] (init None default_one_pair_config)) 7
        = Some \<lparr>history = map message_of
                   [Turn System (system_prompt (config (init None default_one_pair_config))),
                    Turn Assistant ''r1'', Turn User ''m2''],
                 updated_at = 20\<rparr>"
proof -
  have a: "history_max_pairs (config (init None default_one_pair_config)) = 1"
    "store (init None default_one_pair_config) 7 = None"
    "20 - 11 \<le> real_of_int (history_ttl_seconds (config (init None default_one_pair_config)))"
    by (simp_all add: default_one_pair_config_def init_def)
  have b: "budget_allows (init None default_one_pair_config) (map message_of
        [Turn System (system_prompt (config (init None default_one_pair_config))),
         Turn User ''m1'', Turn Assistant ''r1''])"
    "budget_allows (init None default_one_pair_config) (map message_of
        [Turn System (system_prompt (config (init None default_one_pair_config))),
         Turn Assistant ''r1'', Turn User ''m2''])"
    by (simp_all add: budget_eval default_one_pair_config_def)
  from pair_split_at_cap[where m = "init None default_one_pair_config" and u = 7 and ?t1.0 = 10
      and ?t2.0 = 11 and ?t3.0 = 20 and ?m1.0 = "''m1''" and ?r1.0 = "''r1''" and ?m2.0 = "''m2''",
      OF a(1) a(2) disjI2[OF a(3)] b(1) b(2)] a b
  show ?thesis by blast
qed

subsection \<open>Expiry\<close>

lemma ttl_manager_reached:
  "store (run [AddUserMessage 0 0 0 1 ''x'', AddUserMessage 50 50 50 2 ''y''] (init None one_pair_config)) u
     = store ttl_manager u"
  by (simp add: run_def init_def one_pair_config_def add_user_message_def
      purge_inactive_def ensure_entry_def truncate_history_def pair_count_pass_def
      system_message_def Let_def ttl_manager_def stale_entry_def recent_entry_def)

text \<open>
  C8. With a positive time to live, \<open>purge_inactive\<close> removes an entry exactly when its age
  \<open>now - updated_at\<close> exceeds the time to live and keeps every other entry as it is; with a
  time to live of zero or less it changes nothing. \<open>add_user_message\<close> starts with the
  sweep: the entries of the other users are those the sweep leaves, and an expired entry of
  the user itself is replaced by a new one. \<open>add_assistant_message\<close> does not sweep: the other
  entries stay, and the user's entry is appended to whatever its age.
\<close>

theorem ttl_purge:
  "(0 < history_ttl_seconds (config m) \<longrightarrow>
      store (purge_inactive now m) u =
        (case store m u of
           None \<Rightarrow> None
         | Some e \<Rightarrow>
             if now - updated_at e > real_of_int (history_ttl_seconds (config m)) then None
             else Some e))
   \<and> (history_ttl_seconds (config m) \<le> 0 \<longrightarrow> purge_inactive now m = m)
   \<and> (u \<noteq> v \<longrightarrow>
        store (snd (add_user_message t_purge t_new t_upd v body m)) u
          = store (purge_inactive t_purge m) u)
   \<and> (0 < history_ttl_seconds (config m) \<and> store m v = Some old
        \<and> t_purge - updated_at old > real_of_int (history_ttl_seconds (config m)) \<longrightarrow>
        store (snd (add_user_message t_purge t_new t_upd v body m)) v
          = Some \<lparr>history = snd (truncate_history m
                     [system_message (config m), \<lparr>role = ''user'', content = body\<rparr>]),
                   updated_at = t_upd\<rparr>)
   \<and> (u \<noteq> v \<longrightarrow> store (snd (add_assistant_message t_new t_upd v body m)) u = store m u)
   \<and> (store m v = Some old \<longrightarrow>
        store (snd (add_assistant_message t_new t_upd v body m)) v
          = Some \<lparr>history = snd (truncate_history m
                     (history old @ [\<lparr>role = ''assistant'', content = body\<rparr>])),
                   updated_at = t_upd\<rparr>)"
proof (intro conjI impI)
  assume "0 < history_ttl_seconds (config m)"
  then show "store (purge_inactive now m) u =
        (case store m u of
           None \<Rightarrow> None
         | Some e \<Rightarrow>
             if now - updated_at e > real_of_int (history_ttl_seconds (config m)) then None
             else Some e)"
    by (simp add: purge_inactive_def Let_def)
next
  assume "history_ttl_seconds (config m) \<le> 0"
  then show "purge_inactive now m = m" by (simp add: purge_inactive_def Let_def)
next
  assume "u \<noteq> v"
  then show "store (snd (add_user_message t_purge t_new t_upd v body m)) u
          = store (purge_inactive t_purge m) u"
    by (simp add: add_user_message_eq ensure_entry_store)
next
  assume a: "0 < history_ttl_seconds (config m) \<and> store m v = Some old
        \<and> t_purge - updated_at old > real_of_int (history_ttl_seconds (config m))"
  then have "store (purge_inactive t_purge m) v = None"
    by (simp add: purge_inactive_def Let_def)
  then show "store (snd (add_user_message t_purge t_new t_upd v body m)) v
          = Some \<lparr>history = snd (truncate_history m
                     [system_message (config m), \<lparr>role = ''user'', content = body\<rparr>]),
                   updated_at = t_upd\<rparr>"
    by (simp add: add_user_message_eq ensure_entry_fst purge_fields)
next
  assume "u \<noteq> v"
  then show "store (snd (add_assistant_message t_new t_upd v body m)) u = store m u"
    by (simp add: add_assistant_message_eq ensure_entry_store)
next
  assume "store m v = Some old"
  then show "store (snd (add_assistant_message t_new t_upd v body m)) v
          = Some \<lparr>history = snd (truncate_history m
                     (history old @ [\<lparr>role = ''assistant'', content = body\<rparr>])),
                   updated_at = t_upd\<rparr>"
    by (simp add: add_assistant_message_eq ensure_entry_fst)
qed

theorem ttl_purge_witness:
  "0 < history_ttl_seconds (config ttl_manager)
   \<and> store ttl_manager 1 = Some stale_entry
   \<and> store ttl_manager 2 = Some recent_entry
   \<and> store (purge_inactive 100 ttl_manager) 1 = None
   \<and> store (purge_inactive 100 ttl_manager) 2 = Some recent_entry
   \<and> store (purge_inactive 60 ttl_manager) 1 = Some stale_entry
   \<and> history_ttl_seconds (config (init None demo_config)) \<le> 0
   \<and> purge_inactive 100 (init None demo_config) = init None demo_config
   \<and> store (snd (add_user_message 100 100 100 2 ''z'' ttl_manager)) 1 = None
   \<and> store (snd (add_user_message 200 200 200 2 ''z'' ttl_manager)) 2
       = Some \<lparr>history = map message_of [Turn System ''sys'', Turn User ''z''], updated_at = 200\<rparr>
   \<and> store (snd (add_assistant_message 100 100 2 ''z'' ttl_manager)) 1 = Some stale_entry
   \<and> store (snd (add_assistant_message 200 200 2 ''z'' ttl_manager)) 2
       = Some \<lparr>history = map message_of [Turn System ''sys'', Turn User ''y'', Turn Assistant ''z''],
               updated_at = 200\<rparr>"
proof -
  have c: "config ttl_manager = one_pair_config" by (simp add: ttl_manager_def)
  have ttl: "0 < history_ttl_seconds (config ttl_manager)"
    by (simp add: c one_pair_config_def)
  have s1: "store ttl_manager 1 = Some stale_entry" by (simp add: ttl_manager_def)
  have s2: "store ttl_manager 2 = Some recent_entry" by (simp add: ttl_manager_def)
  have off: "history_ttl_seconds (config (init None demo_config)) \<le> 0"
    by (simp add: init_def demo_config_def)
  have ne: "(1::int) \<noteq> 2" by simp
  have tr: "\<And>h. truncate_history ttl_manager h = (Inr (), pair_count_pass one_pair_config h)"
    by (simp add: truncate_no_budget c one_pair_config_def)
  note a = ttl_purge[where m = ttl_manager and now = 100 and u = 1 and v = 2 and t_purge = 100
      and t_new = 100 and t_upd = 100 and body = "''z''" and old = recent_entry]
  note b = ttl_purge[where m = ttl_manager and now = 100 and u = 2 and v = 2 and t_purge = 200
      and t_new = 200 and t_upd = 200 and body = "''z''" and old = recent_entry]
  note d = ttl_purge[where m = ttl_manager and now = 60 and u = 1 and v = 2 and t_purge = 200
      and t_new = 200 and t_upd = 200 and body = "''z''" and old = recent_entry]
  note e = ttl_purge[where m = "init None demo_config" and now = 100]
  have p1: "store (purge_inactive 100 ttl_manager) 1 = None"
    using a ttl s1 by (simp add: stale_entry_def c one_pair_config_def)
  have p2: "store (purge_inactive 100 ttl_manager) 2 = Some recent_entry"
    using b ttl s2 by (simp add: recent_entry_def c one_pair_config_def)
  have p3: "store (purge_inactive 60 ttl_manager) 1 = Some stale_entry"
    using d ttl s1 by (simp add: stale_entry_def c one_pair_config_def)
  have p4: "purge_inactive 100 (init None demo_config) = init None demo_config"
    using e off by blast
  have u1: "store (snd (add_user_message 100 100 100 2 ''z'' ttl_manager)) 1 = None"
    using a ne p1 by simp
  have stale: "0 < history_ttl_seconds (config ttl_manager) \<and> store ttl_manager 2 = Some recent_entry
      \<and> 200 - updated_at recent_entry > real_of_int (history_ttl_seconds (config ttl_manager))"
    using ttl s2 by (simp add: recent_entry_def c one_pair_config_def)
  have u2: "store (snd (add_user_message 200 200 200 2 ''z'' ttl_manager)) 2
       = Some \<lparr>history = map message_of [Turn System ''sys'', Turn User ''z''], updated_at = 200\<rparr>"
    using b stale
    by (simp add: tr pair_count_pass_def c one_pair_config_def system_message_def)
  have a1: "store (snd (add_assistant_message 100 100 2 ''z'' ttl_manager)) 1 = Some stale_entry"
    using a ne s1 by simp
  have a2: "store (snd (add_assistant_message 200 200 2 ''z'' ttl_manager)) 2
       = Some \<lparr>history = map message_of [Turn System ''sys'', Turn User ''y'', Turn Assistant ''z''],
               updated_at = 200\<rparr>"
    using b s2
    by (simp add: tr pair_count_pass_def c one_pair_config_def recent_entry_def)
  from ttl s1 s2 p1 p2 p3 off p4 u1 u2 a1 a2 show ?thesis by blast
qed

subsection \<open>Reading\<close>

text \<open>
  C7, as amended. \<open>build_prompt\<close> renders the stored history of an existing entry and leaves
  the manager unchanged. For a user without an entry it stores a new entry, the system turn
  with the time of the call, and renders that; no other entry is changed.
\<close>

theorem build_prompt_effect:
  "(store m u = Some e \<longrightarrow>
      build_prompt t u cue m = (build_prompt_from_history m (history e) cue, m))
   \<and> (store m u = None \<longrightarrow>
      build_prompt t u cue m =
        (build_prompt_from_history m [system_message (config m)] cue,
         m\<lparr>store := (store m)(u \<mapsto> \<lparr>history = [system_message (config m)], updated_at = t\<rparr>)\<rparr>))"
proof (intro conjI impI)
  assume "store m u = Some e"
  then show "build_prompt t u cue m = (build_prompt_from_history m (history e) cue, m)"
    by (simp add: build_prompt_def ensure_entry_def)
next
  let ?e = "\<lparr>history = [system_message (config m)], updated_at = t\<rparr>"
  let ?m = "m\<lparr>store := (store m)(u \<mapsto> ?e)\<rparr>"
  assume "store m u = None"
  then have e: "ensure_entry t u m = (?e, ?m)"
    by (simp add: ensure_entry_def Let_def)
  have "build_prompt_from_history ?m [system_message (config m)] cue
      = build_prompt_from_history m [system_message (config m)] cue"
    by (rule build_prompt_from_history_cong) simp
  then show "build_prompt t u cue m = (build_prompt_from_history m [system_message (config m)] cue, ?m)"
    by (simp add: build_prompt_def e)
qed

theorem build_prompt_effect_witness:
  "store ttl_manager 1 = Some stale_entry
   \<and> build_prompt 5 1 True ttl_manager
       = (build_prompt_from_history ttl_manager (history stale_entry) True, ttl_manager)
   \<and> store (init None demo_config) 7 = None
   \<and> build_prompt 5 7 True (init None demo_config)
       = (build_prompt_from_history (init None demo_config)
            [system_message (config (init None demo_config))] True,
          (init None demo_config)\<lparr>store := (store (init None demo_config))
             (7 \<mapsto> \<lparr>history = [system_message (config (init None demo_config))], updated_at = 5\<rparr>)\<rparr>)"
proof -
  have s1: "store ttl_manager 1 = Some stale_entry" by (simp add: ttl_manager_def)
  have s2: "store (init None demo_config) 7 = None" by (simp add: init_def)
  from build_prompt_effect[where m = ttl_manager and u = 1 and e = stale_entry and t = 5 and cue = True]
    build_prompt_effect[where m = "init None demo_config" and u = 7 and t = 5 and cue = True]
    s1 s2
  show ?thesis by blast
qed

text \<open>
  C7 as stated fails: on a new manager \<open>build_prompt\<close> for user 7 inserts an entry.
\<close>

theorem build_prompt_inserts_entry:
  "store (init None demo_config) 7 = None
   \<and> store (snd (build_prompt 5 7 True (init None demo_config))) 7
       = Some \<lparr>history = [\<lparr>role = ''system'', content = ''sys''\<rparr>], updated_at = 5\<rparr>"
  by (simp add: build_prompt_def ensure_entry_def init_def demo_config_def system_message_def Let_def)

subsection \<open>The token budget, and a tokenizer that raises\<close>
















subsection \<open>The copy returned by \<open>get_history\<close>\<close>

lemmas obj_simps =
  new_objects_def alloc_def ensure_entry_ref_def list_items_def get_history_ref_def
  dict_set_content_def list_append_def list_clear_def read_dict_def read_list_def
  stored_history_def first_read_def demo_config_def system_message_def Let_def

lemma alloc_fields:
  "fst (alloc obj s) = next_ref s \<and> next_ref (snd (alloc obj s)) = Suc (next_ref s)
   \<and> entries (snd (alloc obj s)) = entries s \<and> settings (snd (alloc obj s)) = settings s
   \<and> objects (snd (alloc obj s)) = (objects s)(next_ref s \<mapsto> obj)"
  by (simp add: alloc_def)

lemma alloc_list_items:
  "l < next_ref s \<Longrightarrow> list_items (snd (alloc obj s)) l = list_items s l"
  by (simp add: list_items_def alloc_fields)

lemma alloc_read_dict:
  "d < next_ref s \<Longrightarrow> read_dict (snd (alloc obj s)) d = read_dict s d"
  by (simp add: read_dict_def alloc_fields)

lemma alloc_list_items_new:
  "list_items (snd (alloc (ListObj refs) s)) (next_ref s) = refs"
  by (simp add: list_items_def alloc_fields)

lemma list_items_bound:
  assumes "well_formed s" and "d \<in> set (list_items s l)"
  shows "d < next_ref s"
proof (cases "objects s l")
  case None
  with assms(2) show ?thesis by (simp add: list_items_def)
next
  case (Some obj)
  show ?thesis
  proof (cases obj)
    case (ListObj refs)
    with Some assms(2) have "d \<in> set refs" by (simp add: list_items_def)
    moreover from assms(1) Some ListObj have "\<forall>d \<in> set refs. d < next_ref s"
      unfolding well_formed_def by blast
    ultimately show ?thesis by blast
  next
    case (DictObj msg)
    with Some assms(2) show ?thesis by (simp add: list_items_def)
  qed
qed

lemma alloc_read_items:
  assumes "well_formed s"
  shows "map (read_dict (snd (alloc obj s))) (list_items s l) = map (read_dict s) (list_items s l)"
proof (rule map_cong[OF refl])
  fix d assume "d \<in> set (list_items s l)"
  with assms have "d < next_ref s" by (rule list_items_bound)
  then show "read_dict (snd (alloc obj s)) d = read_dict s d" by (rule alloc_read_dict)
qed

lemma alloc_read_list:
  assumes "well_formed s" and "l < next_ref s"
  shows "read_list (snd (alloc obj s)) l = read_list s l"
  unfolding read_list_def alloc_list_items[OF assms(2)] alloc_read_items[OF assms(1)]
  by (rule refl)

lemma alloc_copy_read:
  assumes "well_formed s"
  shows "read_list (snd (alloc (ListObj (list_items s l)) s)) (next_ref s) = read_list s l"
  unfolding read_list_def alloc_list_items_new alloc_read_items[OF assms(1)]
  by (rule refl)

lemma alloc_abstract:
  assumes "well_formed s"
  shows "abstract tok (snd (alloc obj s)) = abstract tok s"
proof -
  have "\<And>u l t. entries s u = Some (l, t) \<Longrightarrow> read_list (snd (alloc obj s)) l = read_list s l"
    using assms by (intro alloc_read_list) (auto simp: well_formed_def)
  then have "(\<lambda>u. case entries s u of None \<Rightarrow> None
                 | Some (l, t) \<Rightarrow> Some \<lparr>history = read_list (snd (alloc obj s)) l, updated_at = t\<rparr>)
      = (\<lambda>u. case entries s u of None \<Rightarrow> None
                 | Some (l, t) \<Rightarrow> Some \<lparr>history = read_list s l, updated_at = t\<rparr>)"
    by (intro ext) (auto split: option.splits)
  then show ?thesis by (simp add: abstract_def alloc_fields)
qed

lemma get_history_ref_existing:
  assumes "well_formed s" and "entries s u = Some (l, t)"
  shows "read_list (snd (get_history_ref now u s)) (fst (get_history_ref now u s))
           = fst (get_history now u (abstract tok s))
         \<and> abstract tok (snd (get_history_ref now u s)) = snd (get_history now u (abstract tok s))"
proof -
  have l: "l < next_ref s" using assms by (auto simp: well_formed_def)
  have g: "get_history_ref now u s = alloc (ListObj (list_items s l)) s"
    using assms(2) by (simp add: get_history_ref_def ensure_entry_ref_def)
  have v: "get_history now u (abstract tok s) = (read_list s l, abstract tok s)"
    using assms(2) by (simp add: get_history_def ensure_entry_def abstract_def)
  show ?thesis
    unfolding g v using alloc_copy_read[OF assms(1)] alloc_abstract[OF assms(1)]
    by (simp add: alloc_fields)
qed

lemma well_formed_new: "well_formed (new_objects cfg)"
  by (simp add: well_formed_def new_objects_def)

lemma alloc_well_formed:
  assumes "well_formed s" and "\<And>refs d. obj = ListObj refs \<Longrightarrow> d \<in> set refs \<Longrightarrow> d \<le> next_ref s"
  shows "well_formed (snd (alloc obj s))"
  unfolding well_formed_def
proof (intro conjI allI impI ballI)
  fix a assume "next_ref (snd (alloc obj s)) \<le> a"
  with assms(1) show "objects (snd (alloc obj s)) a = None"
    by (simp add: alloc_fields well_formed_def)
next
  fix u l t assume "entries (snd (alloc obj s)) u = Some (l, t)"
  with assms(1) have "l < next_ref s" unfolding well_formed_def alloc_fields[THEN conjunct2, THEN conjunct2, THEN conjunct1] by blast
  then show "l < next_ref (snd (alloc obj s))" by (simp add: alloc_fields)
next
  fix l refs d
  assume o: "objects (snd (alloc obj s)) l = Some (ListObj refs)" and d: "d \<in> set refs"
  show "d < next_ref (snd (alloc obj s))"
  proof (cases "l = next_ref s")
    case True
    with o have "obj = ListObj refs" by (simp add: alloc_fields)
    then have "d \<le> next_ref s" using d by (rule assms(2))
    then show ?thesis by (simp add: alloc_fields)
  next
    case False
    with o have "objects s l = Some (ListObj refs)" by (simp add: alloc_fields)
    with assms(1) d have "d < next_ref s" unfolding well_formed_def by blast
    then show ?thesis by (simp add: alloc_fields)
  qed
qed

lemma get_history_ref_fresh:
  assumes wf: "well_formed s" and none: "entries s u = None"
  shows "read_list (snd (get_history_ref now u s)) (fst (get_history_ref now u s))
           = fst (get_history now u (abstract tok s))
         \<and> abstract tok (snd (get_history_ref now u s)) = snd (get_history now u (abstract tok s))"
proof -
  let ?n = "next_ref s"
  let ?sm = "system_message (settings s)"
  define s1 where "s1 = snd (alloc (DictObj ?sm) s)"
  define s2 where "s2 = snd (alloc (ListObj [?n]) s1)"
  define s3 where "s3 = s2\<lparr>entries := (entries s2)(u \<mapsto> (Suc ?n, now))\<rparr>"
  have n1: "next_ref s1 = Suc ?n" and e1: "entries s1 = entries s" and c1: "settings s1 = settings s"
    by (simp_all add: s1_def alloc_fields)
  have wf1: "well_formed s1" unfolding s1_def by (rule alloc_well_formed[OF wf]) simp
  have n2: "next_ref s2 = Suc (Suc ?n)" and e2: "entries s2 = entries s" and c2: "settings s2 = settings s"
    by (simp_all add: s2_def alloc_fields n1 e1 c1)
  have wf2: "well_formed s2" unfolding s2_def by (rule alloc_well_formed[OF wf1]) (auto simp: n1)
  have wf3: "well_formed s3"
    using wf2 by (auto simp: well_formed_def s3_def n2)
  have ens: "ensure_entry_ref now u s = (Suc ?n, s3)"
    using none by (simp add: ensure_entry_ref_def Let_def alloc_def s1_def s2_def s3_def)
  have g: "get_history_ref now u s = alloc (ListObj (list_items s3 (Suc ?n))) s3"
    by (simp add: get_history_ref_def ens)
  have rd3: "read_dict s3 = read_dict s2"
    by (rule ext) (simp add: read_dict_def s3_def)
  have r3: "\<And>l. read_list s3 l = read_list s2 l"
    by (simp add: read_list_def list_items_def rd3) (simp add: s3_def)
  have new: "read_list s2 (Suc ?n) = [?sm]"
    by (simp add: read_list_def list_items_def read_dict_def s2_def s1_def alloc_def)
  have old: "\<And>l. l < ?n \<Longrightarrow> read_list s2 l = read_list s l"
  proof -
    fix l assume l: "l < ?n"
    then have "read_list s2 l = read_list s1 l"
      unfolding s2_def by (intro alloc_read_list[OF wf1]) (simp add: n1)
    also have "\<dots> = read_list s l"
      unfolding s1_def using l by (intro alloc_read_list[OF wf])
    finally show "read_list s2 l = read_list s l" .
  qed
  have v: "get_history now u (abstract tok s) =
      ([?sm], (abstract tok s)\<lparr>store := (store (abstract tok s))
                 (u \<mapsto> \<lparr>history = [?sm], updated_at = now\<rparr>)\<rparr>)"
    using none by (simp add: get_history_def ensure_entry_def abstract_def Let_def)
  have e3: "entries s3 = (entries s)(u \<mapsto> (Suc ?n, now))" and c3: "settings s3 = settings s"
    by (simp_all add: s3_def e2 c2)
  have st: "store (abstract tok s3) = (store (abstract tok s))(u \<mapsto> \<lparr>history = [?sm], updated_at = now\<rparr>)"
  proof (rule ext)
    fix w
    show "store (abstract tok s3) w
        = ((store (abstract tok s))(u \<mapsto> \<lparr>history = [?sm], updated_at = now\<rparr>)) w"
    proof (cases "w = u")
      case True
      then show ?thesis by (simp add: abstract_def e3 r3 new)
    next
      case False
      show ?thesis
      proof (cases "entries s w")
        case None
        with False show ?thesis by (simp add: abstract_def e3)
      next
        case (Some p)
        obtain l t where p: "p = (l, t)" by (cases p)
        with Some wf have "l < ?n" unfolding well_formed_def by blast
        then have "read_list s2 l = read_list s l" by (rule old)
        with False Some p show ?thesis
          by (simp add: abstract_def e3 r3)
      qed
    qed
  qed
  have a3: "abstract tok s3 = (abstract tok s)\<lparr>store := (store (abstract tok s))
                 (u \<mapsto> \<lparr>history = [?sm], updated_at = now\<rparr>)\<rparr>"
  proof -
    have "abstract tok s3 = \<lparr>tokenizer = tok, config = settings s, store = store (abstract tok s3)\<rparr>"
      by (simp add: abstract_def c3)
    also have "\<dots> = (abstract tok s)\<lparr>store := (store (abstract tok s))
                 (u \<mapsto> \<lparr>history = [?sm], updated_at = now\<rparr>)\<rparr>"
      unfolding st by (simp add: abstract_def)
    finally show ?thesis .
  qed
  have n3: "next_ref s3 = Suc (Suc ?n)" by (simp add: s3_def n2)
  have copy: "read_list (snd (alloc (ListObj (list_items s3 (Suc ?n))) s3)) (next_ref s3)
      = read_list s3 (Suc ?n)"
    by (rule alloc_copy_read[OF wf3])
  show ?thesis
    unfolding g v using copy alloc_abstract[OF wf3, of tok] a3
    by (simp add: alloc_fields r3 new)
qed

lemma get_history_ref_refines:
  assumes "well_formed s"
  shows "read_list (snd (get_history_ref now u s)) (fst (get_history_ref now u s))
           = fst (get_history now u (abstract tok s))
         \<and> abstract tok (snd (get_history_ref now u s)) = snd (get_history now u (abstract tok s))"
proof (cases "entries s u")
  case None
  with assms show ?thesis by (rule get_history_ref_fresh)
next
  case (Some p)
  obtain l t where "p = (l, t)" by (cases p)
  with Some have "entries s u = Some (l, t)" by simp
  with assms show ?thesis by (rule get_history_ref_existing)
qed

lemma alloc_copy_well_formed:
  assumes "well_formed s"
  shows "well_formed (snd (alloc (ListObj (list_items s l)) s))"
proof (rule alloc_well_formed[OF assms])
  fix refs d
  assume "ListObj (list_items s l) = ListObj refs" and "d \<in> set refs"
  then have "d \<in> set (list_items s l)" by simp
  with assms have "d < next_ref s" by (rule list_items_bound)
  then show "d \<le> next_ref s" by simp
qed

lemma ensure_entry_ref_well_formed:
  assumes "well_formed s"
  shows "well_formed (snd (ensure_entry_ref now u s))"
proof (cases "entries s u")
  case (Some p)
  then show ?thesis using assms by (simp add: ensure_entry_ref_def split: prod.splits)
next
  case None
  let ?n = "next_ref s"
  define s1 where "s1 = snd (alloc (DictObj (system_message (settings s))) s)"
  define s2 where "s2 = snd (alloc (ListObj [?n]) s1)"
  have n1: "next_ref s1 = Suc ?n" by (simp add: s1_def alloc_fields)
  have wf1: "well_formed s1" unfolding s1_def by (rule alloc_well_formed[OF assms]) simp
  have n2: "next_ref s2 = Suc (Suc ?n)" by (simp add: s2_def alloc_fields n1)
  have wf2: "well_formed s2" unfolding s2_def by (rule alloc_well_formed[OF wf1]) (auto simp: n1)
  have "snd (ensure_entry_ref now u s) = s2\<lparr>entries := (entries s2)(u \<mapsto> (Suc ?n, now))\<rparr>"
    using None by (simp add: ensure_entry_ref_def Let_def alloc_def s1_def s2_def)
  moreover have "well_formed (s2\<lparr>entries := (entries s2)(u \<mapsto> (Suc ?n, now))\<rparr>)"
    using wf2 by (auto simp: well_formed_def n2)
  ultimately show ?thesis by simp
qed

lemma get_history_ref_well_formed:
  assumes "well_formed s"
  shows "well_formed (snd (get_history_ref now u s))"
proof -
  obtain l s1 where e: "ensure_entry_ref now u s = (l, s1)" by (cases "ensure_entry_ref now u s")
  with ensure_entry_ref_well_formed[OF assms, of now u] have "well_formed s1" by simp
  then have "well_formed (snd (alloc (ListObj (list_items s1 l)) s1))"
    by (rule alloc_copy_well_formed)
  then show ?thesis by (simp add: get_history_ref_def e)
qed

text \<open>
  C6. On a new manager, \<open>h = get_history(7)\<close> returns a new list object (reference 2) whose
  only item is the stored system turn itself (reference 0). After \<open>h[0]["content"] =
  "changed"\<close> the stored history of user 7 and the result of the next \<open>get_history(7)\<close> have
  the content \<open>changed\<close>. Clearing the returned list or appending to it leaves the stored
  history as it was.
\<close>

theorem get_history_shares_turns:
  "fst (get_history_ref 0 7 (new_objects demo_config)) = 2
   \<and> list_items first_read 2 = [0]
   \<and> read_list first_read 2 = [\<lparr>role = ''system'', content = ''sys''\<rparr>]
   \<and> stored_history first_read 7 = [\<lparr>role = ''system'', content = ''sys''\<rparr>]
   \<and> stored_history (dict_set_content 0 ''changed'' first_read) 7
       = [\<lparr>role = ''system'', content = ''changed''\<rparr>]
   \<and> read_list (snd (get_history_ref 1 7 (dict_set_content 0 ''changed'' first_read)))
        (fst (get_history_ref 1 7 (dict_set_content 0 ''changed'' first_read)))
       = [\<lparr>role = ''system'', content = ''changed''\<rparr>]
   \<and> stored_history (list_clear 2 first_read) 7 = [\<lparr>role = ''system'', content = ''sys''\<rparr>]
   \<and> stored_history (list_append 2 0 first_read) 7 = [\<lparr>role = ''system'', content = ''sys''\<rparr>]"
  by (simp add: obj_simps)

end
